theory Spec2Isabelle
  imports Main
begin

section \<open>Data model of the service package\<close>

text \<open>
  Modelled from the spec: the string constants \<open>model.ServiceTypePostgresql\<close>,
  \<open>model.ServiceTypePgbouncer\<close> and \<open>model.ServiceTypeSystem\<close> of the package
  \<open>internal/model\<close>, whose declaration is not among the sources (the service package
  concatenates them with \<open>":"\<close> and a port number, so they are strings). The spec and the
  comment on \<open>Service.ServiceID\<close> give the service ids \<open>postgres:5432\<close>,
  \<open>pgbouncer:...\<close> and \<open>system:0\<close>.
\<close>

definition ServiceTypePostgresql :: string where
  "ServiceTypePostgresql = ''postgres''"

definition ServiceTypePgbouncer :: string where
  "ServiceTypePgbouncer = ''pgbouncer''"

definition ServiceTypeSystem :: string where
  "ServiceTypeSystem = ''system''"

text \<open>
  Errors are values. \<open>Panic\<close> stands for a Go run-time panic, which no caller in the
  package recovers from: it ends the program.
\<close>

datatype error =
    ErrDataDirNotFound
  | ErrEmptyCmdline
  | ErrReadFile
  | ErrProcess
  | ErrSyntax
  | ErrRange
  | ErrConnect
  | ErrAPIKey
  | ErrServiceType string
  | ErrConninfo
  | ErrFilterCompile
  | ErrCollector
  | Panic

text \<open>
  A collector is an interface value: \<open>nil\<close> or a handle. The handle is a number here; the
  describe/collect methods are not part of the model.
\<close>

type_synonym Collector = nat

record ConnSetting =
  ServiceType :: string
  Conninfo :: string

record Service =
  ServiceID :: string
  ConnSettings :: ConnSetting
  Collector :: "Collector option"
  TotalErrors :: int

text \<open>The zero value \<open>Service{}\<close>, which Go's map index yields for an absent key.\<close>

definition zeroService :: Service where
  "zeroService =
     \<lparr>ServiceID = [], ConnSettings = \<lparr>ServiceType = [], Conninfo = []\<rparr>,
      Collector = None, TotalErrors = 0\<rparr>"

text \<open>
  \<open>TotalErrors\<close> is a Go \<open>int\<close>, 64 bits wide on the platforms the agent supports:
  \<open>s.TotalErrors++\<close> wraps at the top of the range.
\<close>

definition incr :: "int \<Rightarrow> int" where
  "incr n = (if n = 2 ^ 63 - 1 then - (2 ^ 63) else n + 1)"

text \<open>
  \<open>Repository\<close>: the \<open>Services\<close> map. The embedded read-write lock has no content in a
  sequential model; every method below is one critical section of the source.
\<close>

type_synonym Repository = "string \<rightharpoonup> Service"

definition NewRepository :: Repository where
  "NewRepository = Map.empty"

text \<open>The map index expression \<open>repo.Services[sid]\<close>.\<close>

definition index :: "Repository \<Rightarrow> string \<Rightarrow> Service" where
  "index repo sid = (case repo sid of None \<Rightarrow> zeroService | Some s \<Rightarrow> s)"

definition addService :: "string \<Rightarrow> Service \<Rightarrow> Repository \<Rightarrow> Repository" where
  "addService sid s repo = repo(sid \<mapsto> s)"

definition getService :: "string \<Rightarrow> Repository \<Rightarrow> Service" where
  "getService sid repo = index repo sid"

definition markServiceFailed :: "string \<Rightarrow> Repository \<Rightarrow> Repository" where
  "markServiceFailed sid repo =
     (let s = index repo sid;
          s = s\<lparr>TotalErrors := incr (TotalErrors s)\<rparr>
      in repo(sid \<mapsto> s))"

definition getServiceStatus :: "string \<Rightarrow> Repository \<Rightarrow> int" where
  "getServiceStatus sid repo = TotalErrors (index repo sid)"

definition markServiceHealthy :: "string \<Rightarrow> Repository \<Rightarrow> Repository" where
  "markServiceHealthy sid repo =
     (let s = index repo sid;
          s = s\<lparr>TotalErrors := 0\<rparr>
      in repo(sid \<mapsto> s))"

definition removeService :: "string \<Rightarrow> Repository \<Rightarrow> Repository" where
  "removeService sid repo = repo(sid := None)"

definition totalServices :: "Repository \<Rightarrow> nat" where
  "totalServices repo = card (dom repo)"

text \<open>
  \<open>getServiceIDs\<close> ranges over a Go map, whose iteration order is not specified. A list
  \<open>ids\<close> is a possible result for \<open>repo\<close> when it holds every key once; the functions
  that call \<open>getServiceIDs\<close> take the list it returned as an argument.
\<close>

definition getServiceIDs :: "Repository \<Rightarrow> string list \<Rightarrow> bool" where
  "getServiceIDs repo ids = (distinct ids \<and> set ids = dom repo)"

section \<open>The Health Loop\<close>

text \<open>
  What the loops act on: the repository, the collectors registered with the process-wide
  Prometheus registry, and a log of the service ids whose conninfo \<open>healthcheckServices\<close>
  handed to \<open>attemptConnect\<close> (most recent first). The source keeps no such log; it is
  there to state which services the loop probes.
\<close>

record World =
  Services :: Repository
  registered :: "Collector set"
  probed :: "string list"

definition errorThreshold :: int where
  "errorThreshold = 10"

text \<open>
  The body of the loop of \<open>healthcheckServices\<close> for one id. \<open>attemptConnect\<close> is the
  outcome of a test connection to a conninfo during this tick: \<open>None\<close> is Go's \<open>nil\<close>
  error. When the connection succeeds the body does nothing more.
\<close>

definition healthcheckService :: "(string \<Rightarrow> error option) \<Rightarrow> World \<Rightarrow> string \<Rightarrow> World" where
  "healthcheckService attemptConnect w sid =
     (let service = getService sid (Services w) in
      if ServiceType (ConnSettings service) = ServiceTypePostgresql
         \<or> ServiceType (ConnSettings service) = ServiceTypePgbouncer
      then
        let totalErrors = getServiceStatus sid (Services w);
            err = attemptConnect (Conninfo (ConnSettings service));
            w = w\<lparr>probed := sid # probed w\<rparr>
        in if err \<noteq> None then
             let totalErrors = incr totalErrors in
             if totalErrors < errorThreshold
             then w\<lparr>Services := markServiceFailed sid (Services w)\<rparr>
             else
               let w = (case Collector (index (Services w) sid) of
                          None \<Rightarrow> w
                        | Some c \<Rightarrow> w\<lparr>registered := registered w - {c}\<rparr>)
               in w\<lparr>Services := removeService sid (Services w)\<rparr>
           else w
      else w)"

primrec healthcheckLoop :: "(string \<Rightarrow> error option) \<Rightarrow> string list \<Rightarrow> World \<Rightarrow> World" where
  "healthcheckLoop attemptConnect [] w = w"
| "healthcheckLoop attemptConnect (sid # ids) w =
     healthcheckLoop attemptConnect ids (healthcheckService attemptConnect w sid)"

definition healthcheckServices :: "(string \<Rightarrow> error option) \<Rightarrow> string list \<Rightarrow> World \<Rightarrow> World" where
  "healthcheckServices attemptConnect ids w = healthcheckLoop attemptConnect ids w"

text \<open>
  Successive Health Loop ticks: each tick comes with the outcomes of the test connections
  made during it and the id list \<open>getServiceIDs\<close> returned at its start.
\<close>

type_synonym tick = "(string \<Rightarrow> error option) \<times> string list"

fun healthTicks :: "tick list \<Rightarrow> World \<Rightarrow> World" where
  "healthTicks [] w = w"
| "healthTicks ((attemptConnect, ids) # ts) w =
     healthTicks ts (healthcheckServices attemptConnect ids w)"

fun snapshots :: "tick list \<Rightarrow> World \<Rightarrow> bool" where
  "snapshots [] w = True"
| "snapshots ((attemptConnect, ids) # ts) w =
     (getServiceIDs (Services w) ids \<and> snapshots ts (healthcheckServices attemptConnect ids w))"

text \<open>The services with a remote endpoint: the first case of the switch in \<open>healthcheckServices\<close>.\<close>

definition remote :: "Service \<Rightarrow> bool" where
  "remote s = (ServiceType (ConnSettings s) = ServiceTypePostgresql
               \<or> ServiceType (ConnSettings s) = ServiceTypePgbouncer)"

section \<open>Number conversions of the standard library (strconv)\<close>

text \<open>
  \<open>strconv.Itoa\<close>, \<open>strconv.Atoi\<close> and \<open>strconv.ParseInt(s, 10, 64)\<close>, written after
  the library: base 10, an optional sign, no underscores, \<open>int\<close> of 64 bits. \<open>Atoi\<close>
  has a fast path for strings of fewer than 19 bytes and falls back on \<open>ParseInt\<close>.
\<close>

definition isDigit :: "char \<Rightarrow> bool" where
  "isDigit c = ((48::nat) \<le> of_char c \<and> of_char c \<le> (57::nat))"

definition digitVal :: "char \<Rightarrow> nat" where
  "digitVal c = of_char c - (48::nat)"

definition digitChar :: "nat \<Rightarrow> char" where
  "digitChar d = ''0123456789'' ! d"

function formatBits :: "nat \<Rightarrow> string" where
  "formatBits u = (if u < 10 then [digitChar u] else formatBits (u div 10) @ [digitChar (u mod 10)])"
  by pat_completeness auto
termination
  by (relation "measure id") auto

declare formatBits.simps [simp del]

definition Itoa :: "int \<Rightarrow> string" where
  "Itoa i = (if i < 0 then CHR ''-'' # formatBits (nat (- i)) else formatBits (nat i))"

fun ParseUintLoop :: "nat \<Rightarrow> string \<Rightarrow> error + nat" where
  "ParseUintLoop n [] = Inr n"
| "ParseUintLoop n (c # cs) =
     (if \<not> isDigit c then Inl ErrSyntax
      else let n1 = n * 10 + digitVal c
           in if n1 > 2 ^ 64 - 1 then Inl ErrRange else ParseUintLoop n1 cs)"

definition ParseUint :: "string \<Rightarrow> error + nat" where
  "ParseUint s = (if s = [] then Inl ErrSyntax else ParseUintLoop 0 s)"

definition ParseInt :: "string \<Rightarrow> error + int" where
  "ParseInt s0 =
     (if s0 = [] then Inl ErrSyntax
      else
        let neg = (hd s0 = CHR ''-'');
            s = (if hd s0 = CHR ''+'' \<or> hd s0 = CHR ''-'' then tl s0 else s0)
        in case ParseUint s of
             Inl e \<Rightarrow> Inl e
           | Inr un \<Rightarrow>
               if \<not> neg \<and> un \<ge> 2 ^ 63 then Inl ErrRange
               else if neg \<and> un > 2 ^ 63 then Inl ErrRange
               else Inr (if neg then - int un else int un))"

fun AtoiLoop :: "nat \<Rightarrow> string \<Rightarrow> nat option" where
  "AtoiLoop n [] = Some n"
| "AtoiLoop n (ch # s) = (if \<not> isDigit ch then None else AtoiLoop (n * 10 + digitVal ch) s)"

definition Atoi :: "string \<Rightarrow> error + int" where
  "Atoi s0 =
     (let sLen = length s0 in
      if 0 < sLen \<and> sLen < 19 then
        let s = (if hd s0 = CHR ''-'' \<or> hd s0 = CHR ''+'' then tl s0 else s0)
        in if s = [] then Inl ErrSyntax
           else case AtoiLoop 0 s of
                  None \<Rightarrow> Inl ErrSyntax
                | Some n \<Rightarrow> Inr (if hd s0 = CHR ''-'' then - int n else int n)
      else ParseInt s0)"

section \<open>Reading lines (bufio)\<close>

definition LF :: char where
  "LF = CHR 0x0A"

definition CR :: char where
  "CR = CHR 0x0D"

text \<open>
  \<open>(*bufio.Reader).ReadLine\<close> on a reader of the default size (4096 bytes) over a byte
  buffer holding \<open>data\<close>: \<open>None\<close> is \<open>io.EOF\<close>, otherwise the line and the unread rest.
  The line ends at the first line feed, which is dropped together with a carriage return
  before it. When the next 4096 bytes hold no line feed the call returns them as a prefix
  of the line (one byte fewer when the last one is a carriage return); the source ignores
  the \<open>isPrefix\<close> result. A last line with no line feed is returned as it is.
\<close>

definition ReadLine :: "string \<Rightarrow> (string \<times> string) option" where
  "ReadLine data =
     (if data = [] then None
      else if LF \<in> set (take 4096 data) then
        let line = takeWhile (\<lambda>c. c \<noteq> LF) data;
            rest = tl (dropWhile (\<lambda>c. c \<noteq> LF) data)
        in Some (if line \<noteq> [] \<and> last line = CR then butlast line else line, rest)
      else if 4096 \<le> length data then
        (if data ! 4095 = CR then Some (take 4095 data, drop 4095 data)
         else Some (take 4096 data, drop 4096 data))
      else Some (data, []))"

lemma tl_dropWhile_shorter: "data \<noteq> [] \<Longrightarrow> length (tl (dropWhile P data)) < length data"
proof -
  assume "data \<noteq> []"
  then obtain n where n: "length data = Suc n" by (cases data) auto
  have "length (dropWhile P data) \<le> Suc n"
    using length_dropWhile_le [of P data] n by simp
  then have "length (dropWhile P data) - 1 < Suc n" by arith
  then show ?thesis by (simp only: length_tl n)
qed

lemma ReadLine_shorter: "ReadLine data = Some (line, rest) \<Longrightarrow> length rest < length data"
proof -
  assume a: "ReadLine data = Some (line, rest)"
  have ne: "data \<noteq> []" using a by (auto simp add: ReadLine_def)
  have dw: "length (tl (dropWhile (\<lambda>c. c \<noteq> LF) data)) < length data"
    using ne by (rule tl_dropWhile_shorter)
  show ?thesis
    using a ne dw by (auto simp add: ReadLine_def Let_def split: if_splits)
qed

text \<open>
  The lines a \<open>bufio.Scanner\<close> with the default split function (\<open>ScanLines\<close>) and the
  default buffer (at most 65536 bytes) yields before \<open>Scan\<close> returns false. A line that
  does not fit the buffer ends the scan; the source does not look at the error then.
\<close>

definition dropCR :: "string \<Rightarrow> string" where
  "dropCR s = (if s \<noteq> [] \<and> last s = CR then butlast s else s)"

function scanLines :: "string \<Rightarrow> string list" where
  "scanLines data =
     (if data = [] then []
      else if LF \<in> set (take 65536 data) then
        dropCR (takeWhile (\<lambda>c. c \<noteq> LF) data) # scanLines (tl (dropWhile (\<lambda>c. c \<noteq> LF) data))
      else if 65536 \<le> length data then []
      else [dropCR data])"
  by pat_completeness auto
termination
proof (relation "measure length")
  show "wf (measure length)" by simp
next
  fix data :: string
  assume ne: "data \<noteq> []"
  have "length (tl (dropWhile (\<lambda>c. c \<noteq> LF) data)) < length data"
    using ne by (rule tl_dropWhile_shorter)
  then show "(tl (dropWhile (\<lambda>c. c \<noteq> LF) data), data) \<in> measure length"
    by simp
qed

declare scanLines.simps [simp del]

section \<open>String functions of the standard library (strings)\<close>

definition HasPrefix :: "string \<Rightarrow> string \<Rightarrow> bool" where
  "HasPrefix s p = (take (length p) s = p)"

text \<open>\<open>strings.Split(s, sep)\<close> for a separator of one byte.\<close>

primrec Split :: "string \<Rightarrow> char \<Rightarrow> string list" where
  "Split [] sep = [[]]"
| "Split (c # s) sep =
     (if c = sep then [] # Split s sep
      else (case Split s sep of [] \<Rightarrow> [[c]] | x # xs \<Rightarrow> (c # x) # xs))"

text \<open>
  \<open>strings.Fields\<close>, for white space of the ASCII range (tab, line feed, vertical tab,
  form feed, carriage return, space). The library also splits at the Unicode spaces, which
  take more than one byte; command lines are taken to hold none.
\<close>

definition asciiSpace :: "char \<Rightarrow> bool" where
  "asciiSpace c = (c \<in> {CHR 0x09, CHR 0x0A, CHR 0x0B, CHR 0x0C, CHR 0x0D, CHR 0x20})"

fun fieldsLoop :: "string \<Rightarrow> string \<Rightarrow> string list" where
  "fieldsLoop field [] = (if field = [] then [] else [field])"
| "fieldsLoop field (c # s) =
     (if asciiSpace c then (if field = [] then fieldsLoop [] s else field # fieldsLoop [] s)
      else fieldsLoop (field @ [c]) s)"

definition Fields :: "string \<Rightarrow> string list" where
  "Fields s = fieldsLoop [] s"

section \<open>The Engine Locator and the Discovery Loop\<close>

definition defaultHost :: string where
  "defaultHost = ''127.0.0.1''"

definition defaultPgbouncerPort :: int where
  "defaultPgbouncerPort = 6432"

definition defaultPostgresUsername :: string where
  "defaultPostgresUsername = ''pgscv''"

definition defaultPostgresDbname :: string where
  "defaultPostgresDbname = ''postgres''"

definition defaultPgbouncerUsername :: string where
  "defaultPgbouncerUsername = ''pgscv''"

definition defaultPgbouncerDbname :: string where
  "defaultPgbouncerDbname = ''pgbouncer''"

record connectionParams =
  pid :: int
  datadirPath :: string
  startTs :: int
  unixSocketDirPath :: string
  listenAddr :: string
  listenPort :: int

text \<open>The zero value \<open>connectionParams{}\<close>.\<close>

definition zeroParams :: connectionParams where
  "zeroParams =
     \<lparr>pid = 0, datadirPath = [], startTs = 0, unixSocketDirPath = [], listenAddr = [],
      listenPort = 0\<rparr>"

text \<open>
  The configuration of the service package. A \<open>nil\<close> and an empty \<open>ConnSettings\<close> slice
  are both the empty list: \<open>addServicesFromConfig\<close> adds nothing for either.
\<close>

record Config =
  NoTrackMode :: bool
  ConnDefaults :: "string \<rightharpoonup> string"
  ConfigConnSettings :: "ConnSetting list"
  DisabledCollectors :: "string list"

text \<open>
  What a process of the process table answers (\<open>gopsutil\<close>): its name, its parent (the
  value \<open>Ppid\<close> returns; the source drops the error), and its command line as a slice and
  as one string.
\<close>

record Process =
  Pid :: int
  Name :: "error + string"
  Ppid :: int
  CmdlineSlice :: "error + string list"
  Cmdline :: "error + string"

text \<open>
  The surroundings of one pass of the loops: the process table, the files
  (\<open>ReadFile path\<close> is what \<open>os.ReadFile\<close> gives for \<open>filepath.Clean(path)\<close>;
  \<open>Open path\<close> is what \<open>os.Open\<close> gives for it: an error, or a file, which stands here
  for the bytes a reader gets from it before the end of the file or a failed read, none
  for a directory), the outcome of a test connection to a conninfo (\<open>attemptConnect\<close>, \<open>None\<close> for success),
  what \<open>pgx.ParseConfig\<close> makes of a conninfo (host and port), and the collector
  package, which is not part of the model: whether \<open>NewPostgresServiceConfig\<close> accepts a
  conninfo, the collector \<open>NewPgscvCollector\<close> builds for a service id, and whether the
  Prometheus registry accepts a collector given the registered ones.
\<close>

record Env =
  Pids :: "error + int list"
  NewProcess :: "int \<Rightarrow> error + Process"
  ReadFile :: "string \<Rightarrow> error + string"
  Open :: "string \<Rightarrow> error + string"
  attemptConnect :: "string \<Rightarrow> error option"
  ParseConfig :: "string \<Rightarrow> error + (string \<times> nat)"
  NewPostgresServiceConfig :: "string \<Rightarrow> error option"
  NewPgscvCollector :: "string \<Rightarrow> ConnSetting \<Rightarrow> error + Collector"
  Register :: "Collector set \<Rightarrow> Collector \<Rightarrow> error option"

fun parsePostgresProcessCmdline :: "string list \<Rightarrow> error + string" where
  "parsePostgresProcessCmdline [] = Inl ErrDataDirNotFound"
| "parsePostgresProcessCmdline (arg # cmdline) =
     (if arg = ''-D'' \<and> cmdline \<noteq> [] then Inr (hd cmdline)
      else parsePostgresProcessCmdline cmdline)"

text \<open>
  The switch on the line number in \<open>newPostgresConnectionParams\<close>. The function returns
  its partly filled parameters together with an error; its only caller drops them, so the
  model returns the error alone.
\<close>

definition pidFileLine :: "nat \<Rightarrow> string \<Rightarrow> connectionParams \<Rightarrow> error + connectionParams" where
  "pidFileLine i line p =
     (if i = 0 then
        (case Atoi line of Inl err \<Rightarrow> Inl err | Inr v \<Rightarrow> Inr (p\<lparr>pid := v\<rparr>))
      else if i = 1 then Inr (p\<lparr>datadirPath := line\<rparr>)
      else if i = 2 then
        (case ParseInt line of Inl err \<Rightarrow> Inl err | Inr v \<Rightarrow> Inr (p\<lparr>startTs := v\<rparr>))
      else if i = 3 then
        (case Atoi line of Inl err \<Rightarrow> Inl err | Inr v \<Rightarrow> Inr (p\<lparr>listenPort := v\<rparr>))
      else if i = 4 then Inr (p\<lparr>unixSocketDirPath := line\<rparr>)
      else if i = 5 then
        Inr (p\<lparr>listenAddr := (if line = ''*'' then defaultHost else line)\<rparr>)
      else Inr p)"

function pidFileLoop :: "nat \<Rightarrow> connectionParams \<Rightarrow> string \<Rightarrow> error + connectionParams" where
  "pidFileLoop i p data =
     (case ReadLine data of
        None \<Rightarrow> Inr p
      | Some (line, rest) \<Rightarrow>
          (case pidFileLine i line p of
             Inl err \<Rightarrow> Inl err
           | Inr p' \<Rightarrow> pidFileLoop (i + 1) p' rest))"
  by pat_completeness auto
termination
  by (relation "measure (\<lambda>(i, p, data). length data)") (auto dest: ReadLine_shorter)

declare pidFileLoop.simps [simp del]

definition newPostgresConnectionParams ::
  "(string \<Rightarrow> error + string) \<Rightarrow> string \<Rightarrow> error + connectionParams" where
  "newPostgresConnectionParams readFile pidFilePath =
     (case readFile pidFilePath of
        Inl err \<Rightarrow> Inl err
      | Inr content \<Rightarrow> pidFileLoop 0 zeroParams content)"

definition newPostgresConnectionString ::
  "connectionParams \<Rightarrow> (string \<rightharpoonup> string) \<Rightarrow> bool \<Rightarrow> string" where
  "newPostgresConnectionString connParams defaults unix =
     (let username = (case defaults ''postgres_username'' of
                        Some v \<Rightarrow> v | None \<Rightarrow> defaultPostgresUsername);
          dbname = (case defaults ''postgres_dbname'' of
                      Some v \<Rightarrow> v | None \<Rightarrow> defaultPostgresDbname);
          password = (case defaults ''postgres_password'' of Some v \<Rightarrow> v | None \<Rightarrow> []);
          connString = ''application_name=pgscv'';
          connString =
            (if unix \<and> unixSocketDirPath connParams \<noteq> []
             then connString @ '' host='' @ unixSocketDirPath connParams
             else if \<not> unix \<and> listenAddr connParams \<noteq> []
             then connString @ '' host='' @ listenAddr connParams
             else connString);
          connString =
            (if listenPort connParams > 0
             then connString @ '' port='' @ Itoa (listenPort connParams)
             else connString);
          connString = connString @ '' user='' @ username @ '' dbname='' @ dbname;
          connString =
            (if password \<noteq> [] then connString @ '' password='' @ password else connString)
      in connString)"

text \<open>
  The loop of \<open>discoverPostgres\<close> over \<open>[]bool{true, false}\<close>: it stops at the first
  connection string whose test connection succeeds, and otherwise ends with the last
  string built.
\<close>

fun connStringLoop ::
  "Env \<Rightarrow> connectionParams \<Rightarrow> (string \<rightharpoonup> string) \<Rightarrow> bool list \<Rightarrow> string \<Rightarrow> string" where
  "connStringLoop env connParams defaults [] connString = connString"
| "connStringLoop env connParams defaults (v # vs) connString =
     (let connString = newPostgresConnectionString connParams defaults v
      in if attemptConnect env connString = None then connString
         else connStringLoop env connParams defaults vs connString)"

definition discoverPostgres :: "Process \<Rightarrow> Config \<Rightarrow> Env \<Rightarrow> error + Service" where
  "discoverPostgres proc config env =
     (case CmdlineSlice proc of
        Inl err \<Rightarrow> Inl err
      | Inr cmdline \<Rightarrow>
     (case parsePostgresProcessCmdline cmdline of
        Inl err \<Rightarrow> Inl err
      | Inr datadirCmdPath \<Rightarrow>
     (case newPostgresConnectionParams (ReadFile env) (datadirCmdPath @ ''/postmaster.pid'') of
        Inl err \<Rightarrow> Inl err
      | Inr connParams \<Rightarrow>
          let connString =
                connStringLoop env connParams (ConnDefaults config) [True, False] []
          in Inr \<lparr>ServiceID = ServiceTypePostgresql @ '':'' @ Itoa (listenPort connParams),
                  ConnSettings = \<lparr>ServiceType = ServiceTypePostgresql, Conninfo = connString\<rparr>,
                  Collector = None, TotalErrors = 0\<rparr>)))"

text \<open>
  \<open>parsePgbouncerCmdline\<close> slices \<open>parts[1:]\<close>: for a command line of white space only
  \<open>parts\<close> is empty and the slice expression panics.
\<close>

fun firstNonFlag :: "string list \<Rightarrow> string" where
  "firstNonFlag [] = []"
| "firstNonFlag (s # parts) = (if \<not> HasPrefix s ''-'' then s else firstNonFlag parts)"

definition parsePgbouncerCmdline :: "string \<Rightarrow> error + string" where
  "parsePgbouncerCmdline cmdline =
     (let parts = Fields cmdline
      in if parts = [] then Inl Panic else Inr (firstNonFlag (tl parts)))"

text \<open>The body of the scan loop of \<open>parsePgbouncerIniFile\<close> for one line.\<close>

definition iniFileLine :: "string \<Rightarrow> connectionParams \<Rightarrow> error + connectionParams" where
  "iniFileLine line connParams =
     (if HasPrefix line '';'' \<or> HasPrefix line ''#'' \<or> length line = 0 then Inr connParams
      else
        let line = filter (\<lambda>c. c \<noteq> CHR '' '') line;
            vals = Split line (CHR ''='')
        in if length vals \<noteq> 2 then Inr connParams
           else
             let paramName = vals ! 0; paramValue = vals ! 1
             in if paramName = ''listen_addr'' then
                  let a = hd (Split paramValue (CHR '',''))
                  in Inr (connParams\<lparr>listenAddr := (if a = ''*'' then defaultHost else a)\<rparr>)
                else if paramName = ''listen_port'' then
                  (case Atoi paramValue of
                     Inl err \<Rightarrow> Inl err
                   | Inr v \<Rightarrow> Inr (connParams\<lparr>listenPort := v\<rparr>))
                else if paramName = ''unix_socket_dir'' then
                  Inr (connParams\<lparr>unixSocketDirPath := paramValue\<rparr>)
                else Inr connParams)"

fun iniFileLoop :: "string list \<Rightarrow> connectionParams \<Rightarrow> error + connectionParams" where
  "iniFileLoop [] connParams = Inr connParams"
| "iniFileLoop (line # lines) connParams =
     (case iniFileLine line connParams of
        Inl err \<Rightarrow> Inl err
      | Inr connParams \<Rightarrow> iniFileLoop lines connParams)"

text \<open>
  \<open>parsePgbouncerIniFile\<close> opens the file and scans it; only a failed \<open>os.Open\<close> is
  an error of the file. The scanner's error is not looked at after the loop: a file that
  opens and cannot be read yields no line, and the defaults.
\<close>

definition parsePgbouncerIniFile ::
  "(string \<Rightarrow> error + string) \<Rightarrow> string \<Rightarrow> error + connectionParams" where
  "parsePgbouncerIniFile openFile iniFilePath =
     (case openFile iniFilePath of
        Inl err \<Rightarrow> Inl err
      | Inr file \<Rightarrow>
          (case iniFileLoop (scanLines file) zeroParams of
             Inl err \<Rightarrow> Inl err
           | Inr connParams \<Rightarrow>
               let connParams =
                     (if unixSocketDirPath connParams = []
                      then connParams\<lparr>unixSocketDirPath := ''/tmp''\<rparr> else connParams);
                   connParams =
                     (if listenPort connParams = 0
                      then connParams\<lparr>listenPort := defaultPgbouncerPort\<rparr> else connParams)
               in Inr connParams))"

definition newPgbouncerConnectionString ::
  "connectionParams \<Rightarrow> (string \<rightharpoonup> string) \<Rightarrow> string" where
  "newPgbouncerConnectionString connParams defaults =
     (let username = (case defaults ''pgbouncer_username'' of
                        Some v \<Rightarrow> v | None \<Rightarrow> defaultPgbouncerUsername);
          password = (case defaults ''pgbouncer_password'' of Some v \<Rightarrow> v | None \<Rightarrow> []);
          connString = ''application_name=pgscv'';
          connString =
            (if listenAddr connParams \<noteq> []
             then connString @ '' host='' @ listenAddr connParams
             else if unixSocketDirPath connParams \<noteq> []
             then connString @ '' host='' @ unixSocketDirPath connParams
             else connString);
          connString =
            (if listenPort connParams > 0
             then connString @ '' port='' @ Itoa (listenPort connParams)
             else connString);
          connString = connString @ '' user='' @ username @ '' dbname='' @ defaultPgbouncerDbname;
          connString =
            (if password \<noteq> [] then connString @ '' password='' @ password else connString)
      in connString)"

definition discoverPgbouncer :: "Process \<Rightarrow> Config \<Rightarrow> Env \<Rightarrow> error + Service" where
  "discoverPgbouncer proc config env =
     (case Cmdline proc of
        Inl err \<Rightarrow> Inl err
      | Inr cmdline \<Rightarrow>
          if length cmdline = 0 then Inl ErrEmptyCmdline
          else
     (case parsePgbouncerCmdline cmdline of
        Inl err \<Rightarrow> Inl err
      | Inr configFilePath \<Rightarrow>
     (case parsePgbouncerIniFile (Open env) configFilePath of
        Inl err \<Rightarrow> Inl err
      | Inr connParams \<Rightarrow>
          let connString = newPgbouncerConnectionString connParams (ConnDefaults config)
          in (case attemptConnect env connString of
                Some err \<Rightarrow> Inl err
              | None \<Rightarrow>
                  Inr \<lparr>ServiceID = ServiceTypePgbouncer @ '':'' @ Itoa (listenPort connParams),
                       ConnSettings =
                         \<lparr>ServiceType = ServiceTypePgbouncer, Conninfo = connString\<rparr>,
                       Collector = None, TotalErrors = 0\<rparr>))))"

text \<open>
  The body of the loop of \<open>lookupServices\<close> for one pid. A failed discovery is logged and
  the loop goes on; a panic is not recovered and ends the program.
\<close>

definition lookupProcess :: "Config \<Rightarrow> Env \<Rightarrow> Repository \<Rightarrow> int \<Rightarrow> error + Repository" where
  "lookupProcess config env repo procid =
     (case NewProcess env procid of
        Inl err \<Rightarrow> Inr repo
      | Inr proc \<Rightarrow>
     (case Name proc of
        Inl err \<Rightarrow> Inr repo
      | Inr name \<Rightarrow>
          if name = ''postgres'' then
            (if Ppid proc = 1 then
               (case discoverPostgres proc config env of
                  Inl err \<Rightarrow> if err = Panic then Inl Panic else Inr repo
                | Inr postgres \<Rightarrow>
                    if ServiceID (getService (ServiceID postgres) repo) = ServiceID postgres
                    then Inr repo
                    else Inr (addService (ServiceID postgres) postgres repo))
             else Inr repo)
          else if name = ''pgbouncer'' then
            (case discoverPgbouncer proc config env of
               Inl err \<Rightarrow> if err = Panic then Inl Panic else Inr repo
             | Inr pgbouncer \<Rightarrow>
                 if ServiceID (getService (ServiceID pgbouncer) repo) = ServiceID pgbouncer
                 then Inr repo
                 else Inr (addService (ServiceID pgbouncer) pgbouncer repo))
          else Inr repo))"

fun lookupLoop :: "Config \<Rightarrow> Env \<Rightarrow> int list \<Rightarrow> Repository \<Rightarrow> error + Repository" where
  "lookupLoop config env [] repo = Inr repo"
| "lookupLoop config env (procid # pids) repo =
     (case lookupProcess config env repo procid of
        Inl err \<Rightarrow> Inl err
      | Inr repo \<Rightarrow> lookupLoop config env pids repo)"

definition lookupServices :: "Config \<Rightarrow> Env \<Rightarrow> Repository \<Rightarrow> error + Repository" where
  "lookupServices config env repo =
     (case Pids env of
        Inl err \<Rightarrow> Inl err
      | Inr pids \<Rightarrow> lookupLoop config env pids repo)"

section \<open>Words of the specification about postmaster.pid\<close>

text \<open>
  A line of text as the pid file holds it: no line feed inside, shorter than the reader's
  buffer, and no carriage return at its end. \<open>pidFileText\<close> ends every line with a
  line feed, as the engine writes the file.
\<close>

definition textLine :: "string \<Rightarrow> bool" where
  "textLine l = (LF \<notin> set l \<and> length l < 4096 \<and> (l = [] \<or> last l \<noteq> CR))"

definition pidFileText :: "string list \<Rightarrow> string" where
  "pidFileText ls = concat (map (\<lambda>l. l @ [LF]) ls)"

text \<open>
  The lines \<open>ReadLine\<close> yields for a file until \<open>io.EOF\<close>, and the lines on which the
  loop of \<open>newPostgresConnectionParams\<close> returns an error: a line 1, 3 or 4 (counted
  from 1) that does not parse.
\<close>

function readLines :: "string \<Rightarrow> string list" where
  "readLines data =
     (case ReadLine data of None \<Rightarrow> [] | Some (line, rest) \<Rightarrow> line # readLines rest)"
  by pat_completeness auto
termination
  by (relation "measure length") (auto dest: ReadLine_shorter)

declare readLines.simps [simp del]

definition badLine :: "nat \<Rightarrow> string \<Rightarrow> bool" where
  "badLine i line =
     ((i = 0 \<and> isl (Atoi line)) \<or> (i = 2 \<and> isl (ParseInt line)) \<or> (i = 3 \<and> isl (Atoi line)))"

text \<open>
  The parameters a sequence of lines gives when none of them is in error: each field
  takes the value of its line when the line is there, and is zero otherwise.
\<close>

definition intOf :: "error + int \<Rightarrow> int" where
  "intOf r = (case r of Inl err \<Rightarrow> 0 | Inr v \<Rightarrow> v)"

definition paramsOfLines :: "string list \<Rightarrow> connectionParams" where
  "paramsOfLines ls =
     \<lparr>pid = (if 0 < length ls then intOf (Atoi (ls ! 0)) else 0),
      datadirPath = (if 1 < length ls then ls ! 1 else []),
      startTs = (if 2 < length ls then intOf (ParseInt (ls ! 2)) else 0),
      unixSocketDirPath = (if 4 < length ls then ls ! 4 else []),
      listenAddr =
        (if 5 < length ls then (if ls ! 5 = ''*'' then ''127.0.0.1'' else ls ! 5) else []),
      listenPort = (if 3 < length ls then intOf (Atoi (ls ! 3)) else 0)\<rparr>"

text \<open>The loop of \<open>newPostgresConnectionParams\<close> over lines already read.\<close>

fun linesLoop :: "nat \<Rightarrow> connectionParams \<Rightarrow> string list \<Rightarrow> error + connectionParams" where
  "linesLoop i p [] = Inr p"
| "linesLoop i p (line # ls) =
     (case pidFileLine i line p of
        Inl err \<Rightarrow> Inl err
      | Inr p' \<Rightarrow> linesLoop (i + 1) p' ls)"

section \<open>Bootstrap, collector attachment and the supervisor loop\<close>

text \<open>
  The record both \<open>addServicesFromConfig\<close> and \<open>startBackgroundDiscovery\<close> store under
  \<open>system:0\<close>.
\<close>

definition systemService :: Service where
  "systemService =
     \<lparr>ServiceID = ''system:0'',
      ConnSettings = \<lparr>ServiceType = ServiceTypeSystem, Conninfo = []\<rparr>,
      Collector = None, TotalErrors = 0\<rparr>"

text \<open>
  The body of the loop of \<open>addServicesFromConfig\<close> for one connection setting. The test
  connection with the parsed configuration has the outcome \<open>attemptConnect\<close> gives for the
  conninfo. The port is a \<open>uint16\<close>.
\<close>

definition addServiceFromConfig :: "Env \<Rightarrow> Repository \<Rightarrow> ConnSetting \<Rightarrow> Repository" where
  "addServiceFromConfig env repo cs =
     (case ParseConfig env (Conninfo cs) of
        Inl err \<Rightarrow> repo
      | Inr (host, port) \<Rightarrow>
          (case attemptConnect env (Conninfo cs) of
             Some err \<Rightarrow> repo
           | None \<Rightarrow>
               let s = \<lparr>ServiceID = ServiceType cs @ '':'' @ Itoa (int port),
                        ConnSettings = cs, Collector = None, TotalErrors = 0\<rparr>;
                   key = ServiceType cs @ '':'' @ host @ '':'' @ Itoa (int port)
               in addService key s repo))"

definition addServicesFromConfig :: "Config \<Rightarrow> Env \<Rightarrow> Repository \<Rightarrow> Repository" where
  "addServicesFromConfig config env repo =
     foldl (addServiceFromConfig env) (addService ''system:0'' systemService repo)
       (ConfigConnSettings config)"

text \<open>
  The body of the loop of \<open>setupServices\<close> for one id, with the error that makes
  \<open>setupServices\<close> return, if any; what earlier rounds stored stays stored.
  \<open>prometheus.MustRegister\<close> panics when the registry refuses the collector.
\<close>

definition attachCollector :: "Env \<Rightarrow> World \<Rightarrow> string \<Rightarrow> Service \<Rightarrow> World \<times> error option" where
  "attachCollector env w sid service =
     (case NewPgscvCollector env (ServiceID service) (ConnSettings service) of
        Inl err \<Rightarrow> (w, Some err)
      | Inr mc \<Rightarrow>
          (case Register env (registered w) mc of
             Some err \<Rightarrow> (w, Some Panic)
           | None \<Rightarrow>
               (w\<lparr>registered := insert mc (registered w),
                  Services := addService sid (service\<lparr>Collector := Some mc\<rparr>) (Services w)\<rparr>,
                None)))"

definition setupService :: "Config \<Rightarrow> Env \<Rightarrow> World \<Rightarrow> string \<Rightarrow> World \<times> error option" where
  "setupService config env w sid =
     (let service = getService sid (Services w) in
      if Collector service = None then
        (if ServiceType (ConnSettings service) = ServiceTypeSystem then
           attachCollector env w sid service
         else if ServiceType (ConnSettings service) = ServiceTypePostgresql then
           (case NewPostgresServiceConfig env (Conninfo (ConnSettings service)) of
              Some err \<Rightarrow> (w, None)
            | None \<Rightarrow> attachCollector env w sid service)
         else if ServiceType (ConnSettings service) = ServiceTypePgbouncer then
           attachCollector env w sid service
         else (w, None))
      else (w, None))"

fun setupLoop :: "Config \<Rightarrow> Env \<Rightarrow> string list \<Rightarrow> World \<Rightarrow> World \<times> error option" where
  "setupLoop config env [] w = (w, None)"
| "setupLoop config env (sid # ids) w =
     (case setupService config env w sid of
        (w, Some err) \<Rightarrow> (w, Some err)
      | (w, None) \<Rightarrow> setupLoop config env ids w)"

definition setupServices :: "Config \<Rightarrow> Env \<Rightarrow> string list \<Rightarrow> World \<Rightarrow> World \<times> error option" where
  "setupServices config env ids w = setupLoop config env ids w"

text \<open>
  One round of the loop of \<open>startBackgroundDiscovery\<close>, in the surroundings of that
  round and with the id lists \<open>getServiceIDs\<close> returned to \<open>setupServices\<close> and to
  \<open>healthcheckServices\<close>. An error of the lookup or of the setup skips the rest of the
  round; a panic ends the program (\<open>Inl Panic\<close>).
\<close>

type_synonym round = "Env \<times> string list \<times> string list"

fun discoveryRound :: "Config \<Rightarrow> round \<Rightarrow> World \<Rightarrow> error + World" where
  "discoveryRound config (env, setupIDs, healthIDs) w =
     (case lookupServices config env (Services w) of
        Inl err \<Rightarrow> if err = Panic then Inl Panic else Inr w
      | Inr repo \<Rightarrow>
          (case setupServices config env setupIDs (w\<lparr>Services := repo\<rparr>) of
             (w, Some err) \<Rightarrow> if err = Panic then Inl Panic else Inr w
           | (w, None) \<Rightarrow> Inr (healthcheckServices (attemptConnect env) healthIDs w)))"

fun discoveryLoop :: "Config \<Rightarrow> round list \<Rightarrow> World \<Rightarrow> error + World" where
  "discoveryLoop config [] w = Inr w"
| "discoveryLoop config (r # rounds) w =
     (case discoveryRound config r w of
        Inl err \<Rightarrow> Inl err
      | Inr w \<Rightarrow> discoveryLoop config rounds w)"

text \<open>
  \<open>startBackgroundDiscovery\<close>, for the rounds it makes until the context is cancelled:
  the result is the world at that moment.
\<close>

definition startBackgroundDiscovery :: "Config \<Rightarrow> round list \<Rightarrow> World \<Rightarrow> error + World" where
  "startBackgroundDiscovery config rounds w =
     discoveryLoop config rounds
       (w\<lparr>Services := addService ''system:0'' systemService (Services w)\<rparr>)"

text \<open>
  The worlds the repository can be in: a new repository, changed by the methods that the
  package exports or that the supervisor loop calls, in any order and in any surroundings.
\<close>

inductive reachable :: "World \<Rightarrow> bool" where
  by_new: "reachable \<lparr>Services = NewRepository, registered = R, probed = []\<rparr>"
| by_config:
    "reachable w \<Longrightarrow>
     reachable (w\<lparr>Services := addServicesFromConfig config env (Services w)\<rparr>)"
| by_system:
    "reachable w \<Longrightarrow>
     reachable (w\<lparr>Services := addService ''system:0'' systemService (Services w)\<rparr>)"
| by_lookup:
    "reachable w \<Longrightarrow> lookupServices config env (Services w) = Inr repo \<Longrightarrow>
     reachable (w\<lparr>Services := repo\<rparr>)"
| by_setup:
    "reachable w \<Longrightarrow> setupServices config env ids w = (w', err) \<Longrightarrow> err \<noteq> Some Panic \<Longrightarrow>
     reachable w'"
| by_health:
    "reachable w \<Longrightarrow> reachable (healthcheckServices ac ids w)"

section \<open>Notions used to state the properties of discovery\<close>

text \<open>
  What the loop body of \<open>lookupServices\<close> finds for one pid, before it looks at the
  repository: nothing, a candidate service, or a panic.
\<close>

definition discovery :: "Config \<Rightarrow> Env \<Rightarrow> int \<Rightarrow> error + Service option" where
  "discovery config env procid =
     (case NewProcess env procid of
        Inl err \<Rightarrow> Inr None
      | Inr proc \<Rightarrow>
     (case Name proc of
        Inl err \<Rightarrow> Inr None
      | Inr name \<Rightarrow>
          if name = ''postgres'' then
            (if Ppid proc = 1 then
               (case discoverPostgres proc config env of
                  Inl err \<Rightarrow> if err = Panic then Inl Panic else Inr None
                | Inr postgres \<Rightarrow> Inr (Some postgres))
             else Inr None)
          else if name = ''pgbouncer'' then
            (case discoverPgbouncer proc config env of
               Inl err \<Rightarrow> if err = Panic then Inl Panic else Inr None
             | Inr pgbouncer \<Rightarrow> Inr (Some pgbouncer))
          else Inr None))"

text \<open>
  The shape of a service as discovery builds it: a remote service type, an id made of the
  type, a colon and a port number in decimal, no collector and no failures yet.
\<close>

definition discoveredService :: "Service \<Rightarrow> bool" where
  "discoveredService s =
     (remote s \<and> (\<exists>port. ServiceID s = ServiceType (ConnSettings s) @ '':'' @ Itoa port)
      \<and> Collector s = None \<and> TotalErrors s = 0)"

text \<open>
  A service is located by a process when it carries the id that discovery derives from
  the process: for a relational engine (name \<open>postgres\<close>, parent pid 1) the type, a colon
  and the listen port of the parameters read from the pid file in the data directory of
  its command line; for a pooler (name \<open>pgbouncer\<close>) the type, a colon and the listen
  port of the parameters read from the ini file of its command line.
\<close>

definition locatedBy :: "Env \<Rightarrow> Process \<Rightarrow> Service \<Rightarrow> bool" where
  "locatedBy env proc s =
     ((\<exists>cmdline datadirCmdPath connParams.
          Name proc = Inr ''postgres'' \<and> Ppid proc = 1
          \<and> CmdlineSlice proc = Inr cmdline
          \<and> parsePostgresProcessCmdline cmdline = Inr datadirCmdPath
          \<and> newPostgresConnectionParams (ReadFile env) (datadirCmdPath @ ''/postmaster.pid'')
              = Inr connParams
          \<and> ServiceType (ConnSettings s) = ServiceTypePostgresql
          \<and> ServiceID s = ServiceTypePostgresql @ '':'' @ Itoa (listenPort connParams))
      \<or> (\<exists>cmdline configFilePath connParams.
          Name proc = Inr ''pgbouncer''
          \<and> Cmdline proc = Inr cmdline
          \<and> parsePgbouncerCmdline cmdline = Inr configFilePath
          \<and> parsePgbouncerIniFile (Open env) configFilePath = Inr connParams
          \<and> ServiceType (ConnSettings s) = ServiceTypePgbouncer
          \<and> ServiceID s = ServiceTypePgbouncer @ '':'' @ Itoa (listenPort connParams)))"

text \<open>
  Every record is stored under its own \<open>ServiceID\<close>, or under a key with two colons or
  more (the keys \<open>type:host:port\<close> of \<open>addServicesFromConfig\<close>, whose records carry the id
  \<open>type:port\<close>).
\<close>

definition wellKeyed :: "Repository \<Rightarrow> bool" where
  "wellKeyed repo =
     (\<forall>k s. repo k = Some s \<longrightarrow> ServiceID s = k \<or> 2 \<le> count_list k (CHR '':''))"

text \<open>
  The host pseudo-service is in place: \<open>system:0\<close> holds the record the supervisor
  stored, with or without a collector attached and with failure counter 0, and the Health
  Loop has not probed it.
\<close>

definition systemPresent :: "World \<Rightarrow> bool" where
  "systemPresent w =
     ((\<exists>c. Services w ''system:0'' = Some (systemService\<lparr>Collector := c\<rparr>))
      \<and> ''system:0'' \<notin> set (probed w))"

section \<open>The application configuration (package pgscv)\<close>

definition defaultListenAddress :: string where
  "defaultListenAddress = ''127.0.0.1:9890''"

text \<open>\<open>60 * time.Second\<close>, a \<open>time.Duration\<close> in nanoseconds.\<close>

definition defaultSendMetricsInterval :: int where
  "defaultSendMetricsInterval = 60 * 1000000000"

text \<open>
  \<open>Config\<close> of package pgscv. The filters belong to the package \<open>filter\<close>, which is not
  among the sources: their type is a parameter \<open>'f\<close>, and a \<open>nil\<close> value is \<open>None\<close>. A
  \<open>nil\<close> and an empty \<open>ServicesConnSettings\<close> are both the empty list, a \<open>nil\<close> and an
  empty \<open>Defaults\<close> map both the empty map: \<open>Validate\<close> treats each pair alike.
\<close>

record 'f AppConfig =
  BinaryPath :: string
  BinaryVersion :: string
  AutoUpdate :: bool
  AppNoTrackMode :: bool
  ListenAddress :: string
  SendMetricsURL :: string
  SendMetricsInterval :: int
  APIKey :: string
  ServicesConnSettings :: "ConnSetting list"
  Defaults :: "string \<rightharpoonup> string"
  Filters :: "'f option"
  DisableCollectors :: "string list"

text \<open>
  What \<open>Validate\<close> calls outside the repository: \<open>pgx.ParseConfig\<close> and, from the
  package \<open>filter\<close>, \<open>New\<close>, \<open>SetDefault\<close> and \<open>Compile\<close>.
\<close>

record 'f Library =
  pgxParseConfig :: "string \<Rightarrow> error + (string \<times> nat)"
  filterNew :: 'f
  filterSetDefault :: "'f \<Rightarrow> 'f"
  filterCompile :: "'f \<Rightarrow> error + 'f"

definition setDefault :: "string \<Rightarrow> string \<Rightarrow> (string \<rightharpoonup> string) \<Rightarrow> (string \<rightharpoonup> string)" where
  "setDefault key v defaults = (if defaults key = None then defaults(key \<mapsto> v) else defaults)"

text \<open>The loop of \<open>Validate\<close> over the services of the configuration.\<close>

fun validateServices :: "(string \<Rightarrow> error + (string \<times> nat)) \<Rightarrow> ConnSetting list \<Rightarrow> error option" where
  "validateServices parseConfig [] = None"
| "validateServices parseConfig (s # ss) =
     (if ServiceType s = [] then Some (ErrServiceType (Conninfo s))
      else (case parseConfig (Conninfo s) of
              Inl err \<Rightarrow> Some ErrConninfo
            | Inr pgconfig \<Rightarrow> validateServices parseConfig ss))"

text \<open>
  \<open>Validate\<close> changes the configuration in place and returns an error or \<open>nil\<close>; the
  model returns the error or the configuration as changed. \<open>main\<close> exits on an error, so
  the configuration half changed is never used.
\<close>

definition Validate :: "'f Library \<Rightarrow> 'f AppConfig \<Rightarrow> error + 'f AppConfig" where
  "Validate lib c =
     (let c = c\<lparr>SendMetricsInterval := defaultSendMetricsInterval\<rparr> in
      if SendMetricsURL c \<noteq> [] \<and> APIKey c = [] then Inl ErrAPIKey
      else
        let c = (if ListenAddress c = [] then c\<lparr>ListenAddress := defaultListenAddress\<rparr> else c);
            c = c\<lparr>Defaults :=
                  setDefault ''pgbouncer_dbname'' defaultPgbouncerDbname
                    (setDefault ''pgbouncer_username'' defaultPgbouncerUsername
                      (setDefault ''postgres_dbname'' defaultPostgresDbname
                        (setDefault ''postgres_username'' defaultPostgresUsername
                          (Defaults c))))\<rparr>
        in case validateServices (pgxParseConfig lib) (ServicesConnSettings c) of
             Some err \<Rightarrow> Inl err
           | None \<Rightarrow>
               let filters = (case Filters c of None \<Rightarrow> filterNew lib | Some f \<Rightarrow> f);
                   filters = filterSetDefault lib filters
               in case filterCompile lib filters of
                    Inl err \<Rightarrow> Inl err
                  | Inr filters \<Rightarrow> Inr (c\<lparr>Filters := Some filters\<rparr>))"

text \<open>
  The part of \<open>main\<close> after the configuration is read: the exit code when validation
  fails (\<open>os.Exit(1)\<close>), or the validated configuration the program goes on with.
\<close>

definition validateOrExit :: "'f Library \<Rightarrow> 'f AppConfig \<Rightarrow> int + 'f AppConfig" where
  "validateOrExit lib config =
     (case Validate lib config of
        Inl err \<Rightarrow> Inl 1
      | Inr config \<Rightarrow> Inr config)"

section \<open>Example worlds\<close>

definition pg5432 :: Service where
  "pg5432 =
     \<lparr>ServiceID = ''postgres:5432'',
      ConnSettings = \<lparr>ServiceType = ServiceTypePostgresql,
        Conninfo = ''application_name=pgscv host=/tmp port=5432 user=pgscv dbname=postgres''\<rparr>,
      Collector = Some 1, TotalErrors = 0\<rparr>"

definition world0 :: World where
  "world0 =
     \<lparr>Services = [''system:0'' \<mapsto> systemService\<lparr>Collector := Some 0\<rparr>, ''postgres:5432'' \<mapsto> pg5432],
      registered = {0, 1}, probed = []\<rparr>"

definition down :: "string \<Rightarrow> error option" where
  "down conninfo = Some ErrConnect"

definition up :: "string \<Rightarrow> error option" where
  "up conninfo = None"

definition pidFile42 :: string where
  "pidFile42 =
     pidFileText [''42'', ''/var/lib/pg'', ''1700000000'', ''5432'', ''/tmp'', ''*'']
     @ pidFileText [''  5432001    196608'', ''ready   '']"

definition files0 :: "string \<Rightarrow> error + string" where
  "files0 path = (if path = ''/var/lib/pg/postmaster.pid'' then Inr pidFile42 else Inl ErrReadFile)"

definition proc42 :: Process where
  "proc42 =
     \<lparr>Pid = 42, Name = Inr ''postgres'', Ppid = 1,
      CmdlineSlice = Inr [''/usr/lib/postgresql/13/bin/postgres'', ''-D'', ''/var/lib/pg''],
      Cmdline = Inr ''/usr/lib/postgresql/13/bin/postgres -D /var/lib/pg''\<rparr>"

definition env0 :: Env where
  "env0 =
     \<lparr>Pids = Inr [42],
      NewProcess = (\<lambda>procid. if procid = 42 then Inr proc42 else Inl ErrProcess),
      ReadFile = files0,
      Open = files0,
      attemptConnect = up,
      ParseConfig = (\<lambda>conninfo. Inl ErrConninfo),
      NewPostgresServiceConfig = (\<lambda>conninfo. None),
      NewPgscvCollector = (\<lambda>sid cs. Inr (if sid = ''system:0'' then 0 else 1)),
      Register = (\<lambda>R c. None)\<rparr>"

definition config0 :: Config where
  "config0 =
     \<lparr>NoTrackMode = False, ConnDefaults = Map.empty, ConfigConnSettings = [],
      DisabledCollectors = []\<rparr>"

definition world1 :: World where
  "world1 =
     \<lparr>Services = NewRepository(''postgres:5432'' \<mapsto> pg5432\<lparr>Collector := None\<rparr>),
      registered = {}, probed = []\<rparr>"

definition lib0 :: "unit Library" where
  "lib0 =
     \<lparr>pgxParseConfig = (\<lambda>conninfo. Inr (''127.0.0.1'', 5432)),
      filterNew = (), filterSetDefault = (\<lambda>f. f), filterCompile = (\<lambda>f. Inr f)\<rparr>"

definition appConfig0 :: "unit AppConfig" where
  "appConfig0 =
     \<lparr>BinaryPath = [], BinaryVersion = [], AutoUpdate = False, AppNoTrackMode = False,
      ListenAddress = [], SendMetricsURL = [], SendMetricsInterval = 0, APIKey = [],
      ServicesConnSettings = [], Defaults = Map.empty, Filters = None,
      DisableCollectors = []\<rparr>"

lemmas ex_defs = world0_def pg5432_def systemService_def down_def up_def
  ServiceTypePostgresql_def ServiceTypePgbouncer_def ServiceTypeSystem_def
  healthcheckServices_def healthcheckService_def getService_def getServiceStatus_def
  index_def incr_def errorThreshold_def markServiceFailed_def removeService_def
  getServiceIDs_def remote_def Let_def

section \<open>Registry operations on an absent id\<close>

lemma incr_zero: "incr 0 = 1"
  by (simp add: incr_def)

text \<open>
  C10. \<open>markServiceFailed\<close> and \<open>markServiceHealthy\<close> on an id that is not in the
  repository are not no-ops: each stores the zero-valued record under that id, with
  \<open>TotalErrors\<close> 1 and 0 respectively, and the repository grows by one.
\<close>

theorem mark_absent_inserts:
  assumes "repo sid = None" and "finite (dom repo)"
  shows "markServiceFailed sid repo sid = Some (zeroService\<lparr>TotalErrors := 1\<rparr>)
       \<and> markServiceHealthy sid repo sid = Some zeroService
       \<and> totalServices (markServiceFailed sid repo) = totalServices repo + 1
       \<and> totalServices (markServiceHealthy sid repo) = totalServices repo + 1
       \<and> markServiceFailed sid repo \<noteq> repo \<and> markServiceHealthy sid repo \<noteq> repo"
proof -
  have absent: "sid \<notin> dom repo"
    using assms(1) by (simp add: domIff)
  have idx: "index repo sid = zeroService"
    using assms(1) by (simp add: index_def)
  have f: "markServiceFailed sid repo = repo(sid \<mapsto> zeroService\<lparr>TotalErrors := 1\<rparr>)"
    by (simp add: markServiceFailed_def idx Let_def zeroService_def incr_zero)
  have h: "markServiceHealthy sid repo = repo(sid \<mapsto> zeroService)"
    by (simp add: markServiceHealthy_def idx Let_def zeroService_def)
  have cf: "totalServices (markServiceFailed sid repo) = totalServices repo + 1"
    using absent assms(2) by (simp add: f totalServices_def)
  have ch: "totalServices (markServiceHealthy sid repo) = totalServices repo + 1"
    using absent assms(2) by (simp add: h totalServices_def)
  have nf: "markServiceFailed sid repo \<noteq> repo"
    using assms(1) by (metis f fun_upd_same option.distinct(1))
  have nh: "markServiceHealthy sid repo \<noteq> repo"
    using assms(1) by (metis h fun_upd_same option.distinct(1))
  show ?thesis
    using f h cf ch nf nh by simp
qed

theorem mark_absent_inserts_witness:
  "markServiceFailed ''postgres:5432'' NewRepository ''postgres:5432''
     = Some (zeroService\<lparr>TotalErrors := 1\<rparr>)
   \<and> markServiceHealthy ''postgres:5432'' NewRepository ''postgres:5432'' = Some zeroService
   \<and> totalServices NewRepository = 0
   \<and> totalServices (markServiceFailed ''postgres:5432'' NewRepository) = 1
   \<and> totalServices (markServiceHealthy ''postgres:5432'' NewRepository) = 1"
  using mark_absent_inserts [of NewRepository "''postgres:5432''"]
  by (simp add: NewRepository_def totalServices_def)

section \<open>The Health Loop: failures and eviction\<close>

lemma healthcheckService_other:
  "k \<noteq> sid \<Longrightarrow> Services (healthcheckService ac w sid) k = Services w k"
  by (simp add: healthcheckService_def Let_def markServiceFailed_def removeService_def
      split: option.splits)

lemma healthcheckService_registered:
  "registered (healthcheckService ac w sid) \<subseteq> registered w"
  by (auto simp add: healthcheckService_def Let_def split: option.splits)

lemma healthcheckLoop_other:
  "k \<notin> set ids \<Longrightarrow> Services (healthcheckLoop ac ids w) k = Services w k"
  by (induction ids arbitrary: w) (simp_all add: healthcheckService_other)

lemma healthcheckLoop_registered:
  "registered (healthcheckLoop ac ids w) \<subseteq> registered w"
proof (induction ids arbitrary: w)
  case Nil
  show ?case by simp
next
  case (Cons sid ids)
  have "registered (healthcheckLoop ac ids (healthcheckService ac w sid))
          \<subseteq> registered (healthcheckService ac w sid)"
    by (rule Cons.IH)
  with healthcheckService_registered [of ac w sid] show ?case by auto
qed

lemma healthcheckLoop_split:
  assumes "distinct ids" and "sid \<in> set ids"
  shows "\<exists>w1. Services w1 sid = Services w sid
           \<and> Services (healthcheckLoop ac ids w) sid = Services (healthcheckService ac w1 sid) sid
           \<and> registered (healthcheckLoop ac ids w) \<subseteq> registered (healthcheckService ac w1 sid)"
proof -
  from assms(2) obtain pre post where ids: "ids = pre @ sid # post"
    by (auto simp: in_set_conv_decomp)
  with assms(1) have npre: "sid \<notin> set pre" and npost: "sid \<notin> set post"
    by auto
  have app: "\<And>xs ys v. healthcheckLoop ac (xs @ ys) v = healthcheckLoop ac ys (healthcheckLoop ac xs v)"
    subgoal for xs ys v by (induction xs arbitrary: v) simp_all
    done
  let ?w1 = "healthcheckLoop ac pre w"
  have 1: "Services ?w1 sid = Services w sid"
    using npre by (rule healthcheckLoop_other)
  have 2: "healthcheckLoop ac ids w = healthcheckLoop ac post (healthcheckService ac ?w1 sid)"
    by (simp add: ids app)
  have 3: "Services (healthcheckLoop ac ids w) sid = Services (healthcheckService ac ?w1 sid) sid"
    unfolding 2 using npost by (rule healthcheckLoop_other)
  have 4: "registered (healthcheckLoop ac ids w) \<subseteq> registered (healthcheckService ac ?w1 sid)"
    unfolding 2 by (rule healthcheckLoop_registered)
  from 1 3 4 show ?thesis by blast
qed

lemma step_fail_below:
  assumes "Services w sid = Some s" and "remote s"
    and "ac (Conninfo (ConnSettings s)) \<noteq> None"
    and "0 \<le> TotalErrors s" and "TotalErrors s < 9"
  shows "Services (healthcheckService ac w sid) sid = Some (s\<lparr>TotalErrors := TotalErrors s + 1\<rparr>)"
  using assms
  by (auto simp add: healthcheckService_def Let_def getService_def index_def getServiceStatus_def
      remote_def incr_def errorThreshold_def markServiceFailed_def)

lemma step_fail_evict:
  assumes "Services w sid = Some s" and "remote s"
    and "ac (Conninfo (ConnSettings s)) \<noteq> None"
    and "TotalErrors s = 9"
  shows "Services (healthcheckService ac w sid) sid = None
       \<and> (\<forall>c. Collector s = Some c \<longrightarrow> c \<notin> registered (healthcheckService ac w sid))"
  using assms
  by (auto simp add: healthcheckService_def Let_def getService_def index_def getServiceStatus_def
      remote_def incr_def errorThreshold_def removeService_def split: option.splits)

lemma step_success:
  assumes "Services w sid = Some s" and "remote s"
    and "ac (Conninfo (ConnSettings s)) = None"
  shows "healthcheckService ac w sid = w\<lparr>probed := sid # probed w\<rparr>"
  using assms
  by (auto simp add: healthcheckService_def Let_def getService_def index_def getServiceStatus_def
      remote_def)

lemma step_bound:
  assumes "\<forall>k r. Services w k = Some r \<longrightarrow> TotalErrors r \<le> 9"
  shows "\<forall>k r. Services (healthcheckService ac w sid) k = Some r \<longrightarrow> TotalErrors r \<le> 9"
  using assms
  by (auto simp add: healthcheckService_def Let_def getService_def index_def getServiceStatus_def
      incr_def errorThreshold_def removeService_def markServiceFailed_def zeroService_def
      split: option.splits if_splits)


lemma tick_fail_below:
  assumes ids: "getServiceIDs (Services w) ids"
    and s: "Services w sid = Some s" and r: "remote s"
    and f: "ac (Conninfo (ConnSettings s)) \<noteq> None"
    and lo: "0 \<le> TotalErrors s" and hi: "TotalErrors s < 9"
  shows "Services (healthcheckServices ac ids w) sid = Some (s\<lparr>TotalErrors := TotalErrors s + 1\<rparr>)"
proof -
  have d: "distinct ids" and m: "sid \<in> set ids"
    using ids s by (auto simp: getServiceIDs_def)
  from healthcheckLoop_split [OF d m, of w ac] obtain w1 where
    w1: "Services w1 sid = Services w sid"
    and l: "Services (healthcheckLoop ac ids w) sid = Services (healthcheckService ac w1 sid) sid"
    by blast
  have "Services w1 sid = Some s" using w1 s by simp
  then have "Services (healthcheckService ac w1 sid) sid
      = Some (s\<lparr>TotalErrors := TotalErrors s + 1\<rparr>)"
    using r f lo hi by (rule step_fail_below)
  with l show ?thesis
    by (simp add: healthcheckServices_def)
qed

lemma tick_fail_evict:
  assumes ids: "getServiceIDs (Services w) ids"
    and s: "Services w sid = Some s" and r: "remote s"
    and f: "ac (Conninfo (ConnSettings s)) \<noteq> None"
    and n: "TotalErrors s = 9"
  shows "Services (healthcheckServices ac ids w) sid = None
       \<and> (\<forall>c. Collector s = Some c \<longrightarrow> c \<notin> registered (healthcheckServices ac ids w))"
proof -
  have d: "distinct ids" and m: "sid \<in> set ids"
    using ids s by (auto simp: getServiceIDs_def)
  from healthcheckLoop_split [OF d m, of w ac] obtain w1 where
    w1: "Services w1 sid = Services w sid"
    and l: "Services (healthcheckLoop ac ids w) sid = Services (healthcheckService ac w1 sid) sid"
    and g: "registered (healthcheckLoop ac ids w) \<subseteq> registered (healthcheckService ac w1 sid)"
    by blast
  have "Services w1 sid = Some s" using w1 s by simp
  then have "Services (healthcheckService ac w1 sid) sid = None
       \<and> (\<forall>c. Collector s = Some c \<longrightarrow> c \<notin> registered (healthcheckService ac w1 sid))"
    using r f n by (rule step_fail_evict)
  with l g show ?thesis
    by (auto simp add: healthcheckServices_def)
qed

lemma tick_bound:
  assumes "\<forall>k r. Services w k = Some r \<longrightarrow> TotalErrors r \<le> 9"
  shows "\<forall>k r. Services (healthcheckServices ac ids w) k = Some r \<longrightarrow> TotalErrors r \<le> 9"
  unfolding healthcheckServices_def using assms
proof (induction ids arbitrary: w)
  case Nil
  then show ?case by simp
next
  case (Cons sid ids)
  have "\<forall>k r. Services (healthcheckService ac w sid) k = Some r \<longrightarrow> TotalErrors r \<le> 9"
    using Cons.prems by (rule step_bound)
  from Cons.IH [OF this] show ?case by simp
qed

lemma ticks_bound:
  assumes "\<forall>k r. Services w k = Some r \<longrightarrow> TotalErrors r \<le> 9"
  shows "\<forall>k r. Services (healthTicks ts w) k = Some r \<longrightarrow> TotalErrors r \<le> 9"
  using assms
proof (induction ts arbitrary: w)
  case Nil
  then show ?case by simp
next
  case (Cons t ts)
  obtain ac ids where t: "t = (ac, ids)" by (cases t)
  have "\<forall>k r. Services (healthcheckServices ac ids w) k = Some r \<longrightarrow> TotalErrors r \<le> 9"
    using Cons.prems by (rule tick_bound)
  from Cons.IH [OF this] show ?case by (simp add: t)
qed

lemma healthTicks_append:
  "healthTicks (ts @ us) w = healthTicks us (healthTicks ts w)"
  by (induction ts arbitrary: w) auto

lemma snapshots_append:
  "snapshots (ts @ us) w = (snapshots ts w \<and> snapshots us (healthTicks ts w))"
  by (induction ts arbitrary: w) auto

lemma ticks_fail_below:
  assumes "snapshots ts w"
    and "Services w sid = Some s" and "remote s"
    and "\<forall>t \<in> set ts. fst t (Conninfo (ConnSettings s)) \<noteq> None"
    and "0 \<le> TotalErrors s" and "TotalErrors s + int (length ts) \<le> 9"
  shows "Services (healthTicks ts w) sid = Some (s\<lparr>TotalErrors := TotalErrors s + int (length ts)\<rparr>)"
  using assms
proof (induction ts arbitrary: w s)
  case Nil
  then show ?case by simp
next
  case (Cons t ts)
  obtain ac ids where t: "t = (ac, ids)" by (cases t)
  let ?w = "healthcheckServices ac ids w"
  let ?s = "s\<lparr>TotalErrors := TotalErrors s + 1\<rparr>"
  have ids: "getServiceIDs (Services w) ids" and rest: "snapshots ts ?w"
    using Cons.prems(1) by (simp_all add: t)
  have f: "ac (Conninfo (ConnSettings s)) \<noteq> None"
    using Cons.prems(4) by (simp add: t)
  have hi: "TotalErrors s < 9"
    using Cons.prems(6) by simp
  have 1: "Services ?w sid = Some ?s"
    using ids Cons.prems(2,3) f Cons.prems(5) hi by (rule tick_fail_below)
  have 2: "remote ?s"
    using Cons.prems(3) by (simp add: remote_def)
  have 3: "\<forall>t \<in> set ts. fst t (Conninfo (ConnSettings ?s)) \<noteq> None"
    using Cons.prems(4) by simp
  have 4: "0 \<le> TotalErrors ?s" using Cons.prems(5) by simp
  have 5: "TotalErrors ?s + int (length ts) \<le> 9" using Cons.prems(6) by simp
  from Cons.IH [OF rest 1 2 3 4 5] show ?case
    by (simp add: t add.assoc)
qed

text \<open>
  C2. A remote service whose failure counter is 0 and whose probe fails in every tick of a
  run of Health Loop ticks: after at most 9 ticks it is still in the repository, with
  \<open>TotalErrors\<close> equal to the number of ticks; the tenth tick removes its record, and
  its collector, if it has one, is no longer registered after that tick. And whatever the
  probes return, ticks keep every stored counter at most 9 once all are.
\<close>

theorem consecutive_failures_evict_on_tenth:
  "(snapshots ts w \<and> Services w sid = Some s \<and> remote s \<and> TotalErrors s = 0
      \<and> (\<forall>t \<in> set ts. fst t (Conninfo (ConnSettings s)) \<noteq> None)
    \<longrightarrow> (length ts \<le> 9 \<longrightarrow>
           Services (healthTicks ts w) sid = Some (s\<lparr>TotalErrors := int (length ts)\<rparr>))
      \<and> (length ts = 10 \<longrightarrow>
           Services (healthTicks (butlast ts) w) sid = Some (s\<lparr>TotalErrors := 9\<rparr>)
           \<and> Services (healthTicks ts w) sid = None
           \<and> (\<forall>c. Collector s = Some c \<longrightarrow> c \<notin> registered (healthTicks ts w))))
   \<and> ((\<forall>k r. Services w k = Some r \<longrightarrow> TotalErrors r \<le> 9)
    \<longrightarrow> (\<forall>k r. Services (healthTicks ts w) k = Some r \<longrightarrow> TotalErrors r \<le> 9))"
proof (intro conjI impI)
  assume "\<forall>k r. Services w k = Some r \<longrightarrow> TotalErrors r \<le> 9"
  then show "\<forall>k r. Services (healthTicks ts w) k = Some r \<longrightarrow> TotalErrors r \<le> 9"
    by (rule ticks_bound)
next
  assume h: "snapshots ts w \<and> Services w sid = Some s \<and> remote s \<and> TotalErrors s = 0
      \<and> (\<forall>t \<in> set ts. fst t (Conninfo (ConnSettings s)) \<noteq> None)"
  then have sn: "snapshots ts w" and s: "Services w sid = Some s" and r: "remote s"
    and z: "TotalErrors s = 0"
    and f: "\<forall>t \<in> set ts. fst t (Conninfo (ConnSettings s)) \<noteq> None"
    by simp_all
  {
    assume "length ts \<le> 9"
    with ticks_fail_below [OF sn s r f] z
    show "Services (healthTicks ts w) sid = Some (s\<lparr>TotalErrors := int (length ts)\<rparr>)"
      by simp
  }
  assume len: "length ts = 10"
  then have ne: "ts \<noteq> []" by auto
  then have ts: "ts = butlast ts @ [last ts]" by simp
  obtain ac ids where t: "last ts = (ac, ids)" by (cases "last ts")
  let ?w = "healthTicks (butlast ts) w"
  let ?s = "s\<lparr>TotalErrors := 9\<rparr>"
  have sn9: "snapshots (butlast ts) w" and ids: "getServiceIDs (Services ?w) ids"
    using sn snapshots_append [of "butlast ts" "[last ts]" w] ts t by auto
  have f9: "\<forall>t \<in> set (butlast ts). fst t (Conninfo (ConnSettings s)) \<noteq> None"
    using f by (auto dest: in_set_butlastD)
  have l9: "length (butlast ts) = 9" using len by simp
  from ticks_fail_below [OF sn9 s r f9] z l9
  show nine: "Services ?w sid = Some ?s" by simp
  have fl: "ac (Conninfo (ConnSettings ?s)) \<noteq> None"
    using f ne t by (metis fst_conv last_in_set Service.select_convs(2) Service.surjective Service.update_convs(4))
  have r9: "remote ?s" using r by (simp add: remote_def)
  have ev: "Services (healthcheckServices ac ids ?w) sid = None
       \<and> (\<forall>c. Collector ?s = Some c \<longrightarrow> c \<notin> registered (healthcheckServices ac ids ?w))"
    using ids nine r9 fl by (rule tick_fail_evict) simp
  have run: "healthTicks ts w = healthcheckServices ac ids ?w"
    using healthTicks_append [of "butlast ts" "[last ts]" w] ts t by simp
  from ev show "Services (healthTicks ts w) sid = None" by (simp add: run)
  from ev show "\<forall>c. Collector s = Some c \<longrightarrow> c \<notin> registered (healthTicks ts w)"
    by (simp add: run)
qed


theorem consecutive_failures_evict_on_tenth_witness:
  "Services (healthTicks (replicate 9 (down, [''postgres:5432'', ''system:0''])) world0) ''postgres:5432''
     = Some (pg5432\<lparr>TotalErrors := 9\<rparr>)
   \<and> Services (healthTicks (replicate 10 (down, [''postgres:5432'', ''system:0''])) world0) ''postgres:5432''
     = None
   \<and> 1 \<notin> registered (healthTicks (replicate 10 (down, [''postgres:5432'', ''system:0''])) world0)"
proof -
  let ?t = "(down, [''postgres:5432'', ''system:0''])"
  have sn: "snapshots (replicate 10 ?t) world0"
    by (simp add: eval_nat_numeral ex_defs)
  have z: "TotalErrors pg5432 = 0" and r: "remote pg5432"
    by (simp_all add: ex_defs)
  have s: "Services world0 ''postgres:5432'' = Some pg5432"
    by (simp add: world0_def)
  have f: "\<forall>t \<in> set (replicate 10 ?t). fst t (Conninfo (ConnSettings pg5432)) \<noteq> None"
    by (simp add: down_def)
  have b: "butlast (replicate 10 ?t) = replicate 9 ?t"
    by (simp add: eval_nat_numeral)
  have c: "Collector pg5432 = Some 1"
    by (simp add: pg5432_def)
  show ?thesis
    using consecutive_failures_evict_on_tenth [of "replicate 10 ?t" world0 "''postgres:5432''" pg5432]
      sn z r s f c b
    by simp
qed

section \<open>The Health Loop: a successful probe\<close>

text \<open>
  A successful probe of a remote service only adds to the probe log: the record keeps its
  failure counter. \<open>healthcheckServices\<close> has no call of \<open>markServiceHealthy\<close>.
\<close>

lemma tick_success_unchanged:
  assumes "getServiceIDs (Services w) ids" and "Services w sid = Some s" and "remote s"
    and "ac (Conninfo (ConnSettings s)) = None"
  shows "Services (healthcheckServices ac ids w) sid = Some s"
proof -
  have d: "distinct ids" and m: "sid \<in> set ids"
    using assms(1,2) by (auto simp: getServiceIDs_def)
  from healthcheckLoop_split [OF d m, of w ac] obtain w1 where
    w1: "Services w1 sid = Services w sid"
    and l: "Services (healthcheckLoop ac ids w) sid = Services (healthcheckService ac w1 sid) sid"
    by blast
  have "Services w1 sid = Some s" using w1 assms(2) by simp
  then have "healthcheckService ac w1 sid = w1\<lparr>probed := sid # probed w1\<rparr>"
    using assms(3,4) by (rule step_success)
  with l w1 assms(2) show ?thesis
    by (simp add: healthcheckServices_def)
qed

text \<open>
  C1 (what the code does at the failing input). The service \<open>postgres:5432\<close> has failed
  three probes; in the next tick its probe succeeds. After that tick its failure counter is
  still 3, not 0.
\<close>

theorem successful_probe_keeps_counter:
  "Services (healthcheckServices up [''postgres:5432'', ''system:0'']
       (world0\<lparr>Services := (Services world0)(''postgres:5432'' \<mapsto> pg5432\<lparr>TotalErrors := 3\<rparr>)\<rparr>))
     ''postgres:5432''
   = Some (pg5432\<lparr>TotalErrors := 3\<rparr>)
   \<and> probed (healthcheckServices up [''postgres:5432'', ''system:0'']
       (world0\<lparr>Services := (Services world0)(''postgres:5432'' \<mapsto> pg5432\<lparr>TotalErrors := 3\<rparr>)\<rparr>))
     = [''postgres:5432'']"
  by (simp add: ex_defs)

section \<open>Number conversions: printing then parsing\<close>

lemma digit_cases: "d < 10 \<Longrightarrow> d \<in> {0, 1, 2, 3, 4, 5, 6, 7, 8, 9::nat}"
  by auto

lemma digitChar_digit: "d < 10 \<Longrightarrow> isDigit (digitChar d) \<and> digitVal (digitChar d) = d"
  by (drule digit_cases) (auto simp add: digitChar_def isDigit_def digitVal_def)


lemma AtoiLoop_append:
  "AtoiLoop n (xs @ ys) = (case AtoiLoop n xs of None \<Rightarrow> None | Some k \<Rightarrow> AtoiLoop k ys)"
  by (induction xs arbitrary: n) simp_all

lemma ParseUintLoop_append:
  "ParseUintLoop n (xs @ ys)
     = (case ParseUintLoop n xs of Inl e \<Rightarrow> Inl e | Inr k \<Rightarrow> ParseUintLoop k ys)"
  by (induction xs arbitrary: n) (simp_all add: Let_def)

lemma AtoiLoop_formatBits: "AtoiLoop 0 (formatBits u) = Some u"
proof (induction u rule: formatBits.induct)
  case (1 u)
  show ?case
  proof (cases "u < 10")
    case True
    then show ?thesis
      using digitChar_digit [of u] by (subst formatBits.simps) simp
  next
    case False
    have d: "isDigit (digitChar (u mod 10)) \<and> digitVal (digitChar (u mod 10)) = u mod 10"
      by (rule digitChar_digit) simp
    have "AtoiLoop 0 (formatBits (u div 10)) = Some (u div 10)"
      using False by (rule "1.IH")
    then show ?thesis
      using False d by (subst formatBits.simps) (simp add: AtoiLoop_append)
  qed
qed

lemma ParseUintLoop_formatBits:
  "u \<le> 2 ^ 64 - 1 \<Longrightarrow> ParseUintLoop 0 (formatBits u) = Inr u"
proof (induction u rule: formatBits.induct)
  case (1 u)
  show ?case
  proof (cases "u < 10")
    case True
    then show ?thesis
      using digitChar_digit [of u] by (subst formatBits.simps) (simp add: Let_def)
  next
    case False
    have d: "isDigit (digitChar (u mod 10)) \<and> digitVal (digitChar (u mod 10)) = u mod 10"
      by (rule digitChar_digit) simp
    have "u div 10 \<le> 2 ^ 64 - 1"
      using "1.prems" by simp
    with False have "ParseUintLoop 0 (formatBits (u div 10)) = Inr (u div 10)"
      by (rule "1.IH")
    then show ?thesis
      using False d "1.prems"
      by (subst formatBits.simps) (simp add: ParseUintLoop_append Let_def)
  qed
qed

lemma formatBits_digits: "c \<in> set (formatBits u) \<Longrightarrow> isDigit c"
proof (induction u rule: formatBits.induct)
  case (1 u)
  show ?case
  proof (cases "u < 10")
    case True
    with "1.prems" digitChar_digit [of u] show ?thesis
      by (subst (asm) formatBits.simps) simp
  next
    case False
    have d: "isDigit (digitChar (u mod 10))"
      using digitChar_digit [of "u mod 10"] by simp
    from "1.prems" False have "c \<in> set (formatBits (u div 10)) \<or> c = digitChar (u mod 10)"
      by (subst (asm) formatBits.simps) auto
    with "1.IH" [OF False] d show ?thesis by auto
  qed
qed

lemma formatBits_nonempty: "formatBits u \<noteq> []"
  by (subst formatBits.simps) simp

lemma hd_formatBits: "isDigit (hd (formatBits u))"
  using formatBits_nonempty [of u] formatBits_digits [of "hd (formatBits u)" u] by simp

lemma Atoi_Itoa:
  assumes "- (2 ^ 63) \<le> i" and "i < 2 ^ 63"
  shows "Atoi (Itoa i) = Inr i"
proof -
  let ?u = "if i < 0 then nat (- i) else nat i"
  let ?b = "formatBits ?u"
  have ne: "?b \<noteq> []" by (rule formatBits_nonempty)
  have hd: "hd ?b \<noteq> CHR ''-'' \<and> hd ?b \<noteq> CHR ''+''"
    using hd_formatBits [of ?u] by (auto simp add: isDigit_def)
  have fast: "AtoiLoop 0 ?b = Some ?u" by (rule AtoiLoop_formatBits)
  have "?u \<le> 2 ^ 64 - 1" using assms by auto
  then have slow: "ParseUintLoop 0 ?b = Inr ?u" by (rule ParseUintLoop_formatBits)
  show ?thesis
  proof (cases "i < 0")
    case True
    have it: "Itoa i = CHR ''-'' # ?b" using True by (simp add: Itoa_def)
    have "nat (- i) \<le> 2 ^ 63" using assms True by auto
    then show ?thesis
      using True ne fast slow
      by (simp add: it Atoi_def ParseInt_def ParseUint_def Let_def)
  next
    case False
    have it: "Itoa i = ?b" using False by (simp add: Itoa_def)
    have "nat i < 2 ^ 63" using assms False by auto
    then show ?thesis
      using False ne hd fast slow
      by (simp add: it Atoi_def ParseInt_def ParseUint_def Let_def)
  qed
qed

section \<open>The Engine Locator for the relational engine\<close>

lemma ReadLine_textLine:
  assumes "textLine l"
  shows "ReadLine (l @ LF # rest) = Some (l, rest)"
proof -
  have nl: "\<forall>c \<in> set l. c \<noteq> LF" and len: "length l < 4096"
    and cr: "l = [] \<or> last l \<noteq> CR"
    using assms by (auto simp add: textLine_def)
  have tw: "takeWhile (\<lambda>c. c \<noteq> LF) (l @ LF # rest) = l"
    using nl by simp
  have dw: "dropWhile (\<lambda>c. c \<noteq> LF) (l @ LF # rest) = LF # rest"
    using nl by simp
  have "take 4096 (l @ LF # rest) = l @ take (4096 - length l) (LF # rest)"
    using len by simp
  moreover obtain k where "4096 - length l = Suc k"
    using len by (cases "4096 - length l") auto
  ultimately have win: "LF \<in> set (take 4096 (l @ LF # rest))"
    by simp
  show ?thesis
    unfolding ReadLine_def Let_def tw dw using win cr by auto
qed

lemma pidFileLoop_line:
  assumes "textLine l"
  shows "pidFileLoop i p (l @ LF # rest)
     = (case pidFileLine i l p of Inl err \<Rightarrow> Inl err | Inr p' \<Rightarrow> pidFileLoop (i + 1) p' rest)"
  by (subst pidFileLoop.simps) (simp add: ReadLine_textLine [OF assms])

lemma pidFileLoop_beyond: "6 \<le> i \<Longrightarrow> pidFileLoop i p data = Inr p"
proof (induction i p data rule: pidFileLoop.induct)
  case (1 i p data)
  show ?case
  proof (cases "ReadLine data")
    case None
    then show ?thesis by (subst pidFileLoop.simps) simp
  next
    case (Some lr)
    obtain line rest where lr: "lr = (line, rest)" by (cases lr)
    have pl: "pidFileLine i line p = Inr p"
      using "1.prems" by (simp add: pidFileLine_def)
    have "pidFileLoop (i + 1) p rest = Inr p"
      using Some lr pl "1.prems" by (intro "1.IH") auto
    then show ?thesis
      using Some lr pl by (subst pidFileLoop.simps) simp
  qed
qed

lemma ReadLine_empty: "ReadLine [] = None"
  by (simp add: ReadLine_def)

lemma pidFileLoop_empty: "pidFileLoop i p [] = Inr p"
  by (subst pidFileLoop.simps) (simp add: ReadLine_empty)

lemma ReadLine_last_line:
  assumes "textLine l" and "l \<noteq> []"
  shows "ReadLine l = Some (l, [])"
proof -
  have "set (take 4096 l) \<subseteq> set l" by (rule set_take_subset)
  then have "LF \<notin> set (take 4096 l)"
    using assms(1) by (auto simp add: textLine_def)
  moreover have "\<not> 4096 \<le> length l"
    using assms(1) by (simp add: textLine_def)
  ultimately show ?thesis
    using assms(2) by (simp add: ReadLine_def)
qed

lemma pidFile_six_lines:
  assumes fl: "readFile path = Inr (pidFileText [l1, l2, l3, l4, l5] @ l6 @ ending)"
    and ending: "ending = [] \<or> hd ending = LF"
    and lines: "\<forall>l \<in> set [l1, l2, l3, l4, l5, l6]. textLine l"
    and n1: "Atoi l1 = Inr pidv" and n3: "ParseInt l3 = Inr ts" and n4: "Atoi l4 = Inr port"
  shows "newPostgresConnectionParams readFile path =
     Inr \<lparr>pid = pidv, datadirPath = l2, startTs = ts, unixSocketDirPath = l5,
          listenAddr = (if l6 = ''*'' then ''127.0.0.1'' else l6), listenPort = port\<rparr>"
proof -
  let ?p5 = "\<lparr>pid = pidv, datadirPath = l2, startTs = ts, unixSocketDirPath = l5,
          listenAddr = [], listenPort = port\<rparr>"
  let ?p6 = "\<lparr>pid = pidv, datadirPath = l2, startTs = ts, unixSocketDirPath = l5,
          listenAddr = (if l6 = ''*'' then ''127.0.0.1'' else l6), listenPort = port\<rparr>"
  have t: "textLine l1" "textLine l2" "textLine l3" "textLine l4" "textLine l5"
    and t6: "textLine l6"
    using lines by simp_all
  have c: "pidFileText [l1, l2, l3, l4, l5] @ l6 @ ending
      = l1 @ LF # l2 @ LF # l3 @ LF # l4 @ LF # l5 @ LF # l6 @ ending"
    by (simp add: pidFileText_def)
  have n5: "Suc (Suc (Suc (Suc (Suc 0)))) = 5" by simp
  have five: "pidFileLoop 0 zeroParams (l1 @ LF # l2 @ LF # l3 @ LF # l4 @ LF # l5 @ LF # l6 @ ending)
      = pidFileLoop 5 ?p5 (l6 @ ending)"
    by (simp add: pidFileLoop_line t pidFileLine_def n1 n3 n4 zeroParams_def n5)
  have l5: "pidFileLine 5 l6 ?p5 = Inr ?p6"
    by (simp add: pidFileLine_def defaultHost_def)
  have six: "pidFileLoop 5 ?p5 (l6 @ ending) = Inr ?p6"
  proof (cases ending)
    case (Cons c further)
    with ending have e: "ending = LF # further" by simp
    have "pidFileLoop 5 ?p5 (l6 @ LF # further)
        = (case pidFileLine 5 l6 ?p5 of
             Inl err \<Rightarrow> Inl err | Inr p' \<Rightarrow> pidFileLoop (5 + 1) p' further)"
      using t6 by (rule pidFileLoop_line)
    then show ?thesis
      by (simp add: e l5 pidFileLoop_beyond)
  next
    case Nil
    show ?thesis
    proof (cases "l6 = []")
      case True
      with Nil show ?thesis by (simp add: pidFileLoop_empty)
    next
      case False
      have "ReadLine l6 = Some (l6, [])"
        using t6 False by (rule ReadLine_last_line)
      then have "pidFileLoop 5 ?p5 l6 = Inr ?p6"
        by (subst pidFileLoop.simps) (simp add: l5 pidFileLoop_empty)
      with Nil show ?thesis by simp
    qed
  qed
  show ?thesis
    by (simp only: newPostgresConnectionParams_def fl c five six sum.case)
qed

text \<open>
  C8. A pid file of six lines of text, the sixth with or without its line feed and with
  anything after that line feed, whose first, third and fourth lines parse as integers: the
  parameters returned are those six lines, the numbers parsed, with a listen address \<open>*\<close>
  replaced by \<open>127.0.0.1\<close>.
\<close>

theorem postmaster_pid_fields:
  assumes "readFile path = Inr (pidFileText [l1, l2, l3, l4, l5] @ l6 @ ending)"
    and "ending = [] \<or> hd ending = LF"
    and "\<forall>l \<in> set [l1, l2, l3, l4, l5, l6]. textLine l"
    and "Atoi l1 = Inr pidv" and "ParseInt l3 = Inr ts" and "Atoi l4 = Inr port"
  shows "newPostgresConnectionParams readFile path =
     Inr \<lparr>pid = pidv, datadirPath = l2, startTs = ts, unixSocketDirPath = l5,
          listenAddr = (if l6 = ''*'' then ''127.0.0.1'' else l6), listenPort = port\<rparr>"
  using assms by (rule pidFile_six_lines)

lemma pidFileLine_isl: "isl (pidFileLine i line p) = badLine i line"
  by (auto simp add: pidFileLine_def badLine_def split: sum.splits)

lemma pidFileLoop_isl:
  "isl (pidFileLoop i p data)
     = (\<exists>j < length (readLines data). badLine (i + j) (readLines data ! j))"
proof (induction i p data rule: pidFileLoop.induct)
  case (1 i p data)
  show ?case
  proof (cases "ReadLine data")
    case None
    then show ?thesis
      by (subst pidFileLoop.simps, subst readLines.simps) simp
  next
    case (Some lr)
    obtain line rest where lr: "lr = (line, rest)" by (cases lr)
    have rl: "readLines data = line # readLines rest"
      using Some lr by (subst readLines.simps) simp
    show ?thesis
    proof (cases "pidFileLine i line p")
      case (Inl err)
      then have "badLine i line"
        using pidFileLine_isl [of i line p] by simp
      then have "\<exists>j < length (readLines data). badLine (i + j) (readLines data ! j)"
        unfolding rl by (intro exI [of _ 0]) simp
      moreover have "isl (pidFileLoop i p data)"
        using Some lr Inl by (subst pidFileLoop.simps) simp
      ultimately show ?thesis by simp
    next
      case (Inr p')
      then have good: "\<not> badLine i line"
        using pidFileLine_isl [of i line p] by simp
      have ih: "isl (pidFileLoop (i + 1) p' rest)
          = (\<exists>j < length (readLines rest). badLine (i + 1 + j) (readLines rest ! j))"
        using Some lr Inr by (intro "1.IH") auto
      have l: "isl (pidFileLoop i p data) = isl (pidFileLoop (i + 1) p' rest)"
        using Some lr Inr by (subst pidFileLoop.simps) simp
      have r: "(\<exists>j < length (readLines data). badLine (i + j) (readLines data ! j))
          = (\<exists>j < length (readLines rest). badLine (i + 1 + j) (readLines rest ! j))"
        unfolding rl using good
        by (auto simp add: less_Suc_eq_0_disj)
      show ?thesis
        using l r ih by simp
    qed
  qed
qed

lemma parsePostgresProcessCmdline_isl:
  "isl (parsePostgresProcessCmdline cmdline)
     = (\<not> (\<exists>i. Suc i < length cmdline \<and> cmdline ! i = ''-D''))"
proof (induction cmdline)
  case Nil
  show ?case by simp
next
  case (Cons arg cmdline)
  show ?case
  proof (cases "arg = ''-D'' \<and> cmdline \<noteq> []")
    case True
    then have "Suc 0 < length (arg # cmdline) \<and> (arg # cmdline) ! 0 = ''-D''"
      by (cases cmdline) auto
    then have "\<exists>i. Suc i < length (arg # cmdline) \<and> (arg # cmdline) ! i = ''-D''"
      by blast
    with True show ?thesis by simp
  next
    case False
    have "(\<exists>i. Suc i < length (arg # cmdline) \<and> (arg # cmdline) ! i = ''-D'')
        = (\<exists>i. Suc i < length cmdline \<and> cmdline ! i = ''-D'')"
    proof
      assume "\<exists>i. Suc i < length (arg # cmdline) \<and> (arg # cmdline) ! i = ''-D''"
      then obtain i where i: "Suc i < length (arg # cmdline)" "(arg # cmdline) ! i = ''-D''"
        by blast
      show "\<exists>i. Suc i < length cmdline \<and> cmdline ! i = ''-D''"
      proof (cases i)
        case 0
        with i False show ?thesis by auto
      next
        case (Suc k)
        with i show ?thesis by auto
      qed
    next
      assume "\<exists>i. Suc i < length cmdline \<and> cmdline ! i = ''-D''"
      then obtain i where "Suc i < length cmdline" "cmdline ! i = ''-D''" by blast
      then have "Suc (Suc i) < length (arg # cmdline) \<and> (arg # cmdline) ! Suc i = ''-D''"
        by simp
      then show "\<exists>i. Suc i < length (arg # cmdline) \<and> (arg # cmdline) ! i = ''-D''"
        by blast
    qed
    with False Cons.IH show ?thesis by auto
  qed
qed

lemma textLine_examples:
  "textLine ''42''" "textLine ''/var/lib/pg''" "textLine ''1700000000''" "textLine ''5432''"
  "textLine ''/tmp''" "textLine ''*''"
  by (simp_all add: textLine_def LF_def CR_def)

lemma readLines_line:
  assumes "textLine l"
  shows "readLines (l @ LF # rest) = l # readLines rest"
  by (subst readLines.simps) (simp add: ReadLine_textLine [OF assms])

lemma readLines_empty: "readLines [] = []"
  by (subst readLines.simps) (simp add: ReadLine_empty)

lemma pidFileLoop_linesLoop: "pidFileLoop i p data = linesLoop i p (readLines data)"
proof (induction i p data rule: pidFileLoop.induct)
  case (1 i p data)
  show ?case
  proof (cases "ReadLine data")
    case None
    then show ?thesis
      by (subst pidFileLoop.simps, subst readLines.simps) simp
  next
    case (Some lr)
    obtain line rest where lr: "lr = (line, rest)" by (cases lr)
    have rl: "readLines data = line # readLines rest"
      using Some lr by (subst readLines.simps) simp
    show ?thesis
    proof (cases "pidFileLine i line p")
      case (Inl err)
      then show ?thesis
        using Some lr rl by (subst pidFileLoop.simps) simp
    next
      case (Inr p')
      have "pidFileLoop (i + 1) p' rest = linesLoop (i + 1) p' (readLines rest)"
        using Some lr Inr by (intro "1.IH") auto
      then show ?thesis
        using Some lr rl Inr by (subst pidFileLoop.simps) simp
    qed
  qed
qed

lemma linesLoop_beyond: "6 \<le> i \<Longrightarrow> linesLoop i p ls = Inr p"
  by (induction ls arbitrary: i) (simp_all add: pidFileLine_def)

lemma linesLoop_params:
  "linesLoop 0 zeroParams ls = Inr p \<Longrightarrow> p = paramsOfLines ls"
  apply (cases ls)
   apply (simp add: paramsOfLines_def zeroParams_def)
  subgoal for l1 r1
    apply (cases r1)
     apply (auto simp add: paramsOfLines_def zeroParams_def pidFileLine_def intOf_def
        split: sum.splits)[1]
    subgoal for l2 r2
      apply (cases r2)
       apply (auto simp add: paramsOfLines_def zeroParams_def pidFileLine_def intOf_def
          split: sum.splits)[1]
      subgoal for l3 r3
        apply (cases r3)
         apply (auto simp add: paramsOfLines_def zeroParams_def pidFileLine_def intOf_def
            split: sum.splits)[1]
        subgoal for l4 r4
          apply (cases r4)
           apply (auto simp add: paramsOfLines_def zeroParams_def pidFileLine_def intOf_def
              split: sum.splits)[1]
          subgoal for l5 r5
            apply (cases r5)
             apply (auto simp add: paramsOfLines_def zeroParams_def pidFileLine_def intOf_def
                split: sum.splits)[1]
            subgoal for l6 r6
              apply (auto simp add: paramsOfLines_def zeroParams_def pidFileLine_def intOf_def
                  defaultHost_def linesLoop_beyond split: sum.splits)
              done
            done
          done
        done
      done
    done
  done

lemma readLines_text:
  assumes "\<forall>l \<in> set ls. textLine l" and "textLine l'"
  shows "readLines (pidFileText ls @ l') = ls @ (if l' = [] then [] else [l'])"
  using assms(1)
proof (induction ls)
  case Nil
  show ?case
  proof (cases "l' = []")
    case True
    then show ?thesis by (simp add: pidFileText_def readLines_empty)
  next
    case False
    have "ReadLine l' = Some (l', [])"
      using assms(2) False by (rule ReadLine_last_line)
    then have "readLines l' = [l']"
      by (subst readLines.simps) (simp add: readLines_empty)
    with False show ?thesis by (simp add: pidFileText_def)
  qed
next
  case (Cons l ls)
  have t: "textLine l" using Cons.prems by simp
  have "pidFileText (l # ls) @ l' = l @ LF # (pidFileText ls @ l')"
    by (simp add: pidFileText_def)
  moreover have "readLines (l @ LF # (pidFileText ls @ l')) = l # readLines (pidFileText ls @ l')"
    using t by (rule readLines_line)
  ultimately show ?case
    using Cons by simp
qed

lemma readLines_piece:
  assumes "LF \<notin> set (take 4096 data)" and "4096 \<le> length data" and "data ! 4095 \<noteq> CR"
  shows "readLines data = take 4096 data # readLines (drop 4096 data)"
proof -
  have "data \<noteq> []" using assms(2) by auto
  then have "ReadLine data = Some (take 4096 data, drop 4096 data)"
    using assms by (simp add: ReadLine_def)
  then show ?thesis
    by (subst readLines.simps) simp
qed

text \<open>
  C7, as the code has it. The command line parser fails exactly when no \<open>-D\<close> is
  followed by a further argument. Reading the pid file fails exactly when the file cannot
  be read or the first, third or fourth line the reader returns is there and does not
  parse as an integer. Otherwise the result is the parameters of the lines returned: every
  field has the value of its line when the line is there and is zero when it is not, so a
  file with fewer than six lines is not an error. The lines the reader returns are the
  lines of the file when they are lines of text (the last with or without its line feed);
  a run of 4096 bytes with no line feed is returned as a line of its own.
\<close>

theorem engine_locator_errors:
  "isl (parsePostgresProcessCmdline cmdline)
     = (\<not> (\<exists>i. Suc i < length cmdline \<and> cmdline ! i = ''-D''))
   \<and> isl (newPostgresConnectionParams readFile path)
     = (case readFile path of
          Inl err \<Rightarrow> True
        | Inr content \<Rightarrow>
            (0 < length (readLines content) \<and> isl (Atoi (readLines content ! 0)))
            \<or> (2 < length (readLines content) \<and> isl (ParseInt (readLines content ! 2)))
            \<or> (3 < length (readLines content) \<and> isl (Atoi (readLines content ! 3))))
   \<and> (newPostgresConnectionParams readFile path = Inr p
      \<longrightarrow> (\<exists>content. readFile path = Inr content \<and> p = paramsOfLines (readLines content)))
   \<and> ((\<forall>l \<in> set ls. textLine l) \<and> textLine l'
      \<longrightarrow> readLines (pidFileText ls @ l') = ls @ (if l' = [] then [] else [l']))
   \<and> (LF \<notin> set (take 4096 data) \<and> 4096 \<le> length data \<and> data ! 4095 \<noteq> CR
      \<longrightarrow> readLines data = take 4096 data # readLines (drop 4096 data))"
proof -
  have a: "isl (parsePostgresProcessCmdline cmdline)
     = (\<not> (\<exists>i. Suc i < length cmdline \<and> cmdline ! i = ''-D''))"
    by (rule parsePostgresProcessCmdline_isl)
  have b: "isl (newPostgresConnectionParams readFile path)
     = (case readFile path of
          Inl err \<Rightarrow> True
        | Inr content \<Rightarrow>
            (0 < length (readLines content) \<and> isl (Atoi (readLines content ! 0)))
            \<or> (2 < length (readLines content) \<and> isl (ParseInt (readLines content ! 2)))
            \<or> (3 < length (readLines content) \<and> isl (Atoi (readLines content ! 3))))"
  proof (cases "readFile path")
    case (Inl err)
    then show ?thesis
      by (simp add: newPostgresConnectionParams_def)
  next
    case (Inr content)
    have "(\<exists>j < length (readLines content). badLine (0 + j) (readLines content ! j))
        = ((0 < length (readLines content) \<and> isl (Atoi (readLines content ! 0)))
           \<or> (2 < length (readLines content) \<and> isl (ParseInt (readLines content ! 2)))
           \<or> (3 < length (readLines content) \<and> isl (Atoi (readLines content ! 3))))"
      by (auto simp add: badLine_def)
    with Inr show ?thesis
      by (simp add: newPostgresConnectionParams_def pidFileLoop_isl)
  qed
  have c: "newPostgresConnectionParams readFile path = Inr p
      \<longrightarrow> (\<exists>content. readFile path = Inr content \<and> p = paramsOfLines (readLines content))"
  proof
    assume r: "newPostgresConnectionParams readFile path = Inr p"
    then obtain content where f: "readFile path = Inr content"
      by (cases "readFile path") (simp_all add: newPostgresConnectionParams_def)
    with r have "linesLoop 0 zeroParams (readLines content) = Inr p"
      by (simp add: newPostgresConnectionParams_def pidFileLoop_linesLoop)
    then have "p = paramsOfLines (readLines content)"
      by (rule linesLoop_params)
    with f show "\<exists>content. readFile path = Inr content \<and> p = paramsOfLines (readLines content)"
      by blast
  qed
  have d: "(\<forall>l \<in> set ls. textLine l) \<and> textLine l'
      \<longrightarrow> readLines (pidFileText ls @ l') = ls @ (if l' = [] then [] else [l'])"
    using readLines_text [of ls l'] by blast
  have e: "LF \<notin> set (take 4096 data) \<and> 4096 \<le> length data \<and> data ! 4095 \<noteq> CR
      \<longrightarrow> readLines data = take 4096 data # readLines (drop 4096 data)"
    using readLines_piece [of data] by blast
  from a b c d e show ?thesis by blast
qed

text \<open>
  C7 as stated fails: a pid file of one line has lines absent, and the result is no error
  but parameters whose other fields are zero.
\<close>

theorem short_pid_file_is_no_error:
  "length (readLines (pidFileText [''42''])) < 6
   \<and> newPostgresConnectionParams (\<lambda>path. Inr (pidFileText [''42''])) ''/var/lib/pg/postmaster.pid''
     = Inr (zeroParams\<lparr>pid := 42\<rparr>)"
proof -
  have c: "pidFileText [''42''] = ''42'' @ LF # []"
    by (simp add: pidFileText_def)
  have "readLines (''42'' @ LF # []) = ''42'' # readLines []"
    using textLine_examples(1) by (rule readLines_line)
  then have r: "readLines (''42'' @ LF # []) = [''42'']"
    by (simp only: readLines_empty)
  have a: "Atoi ''42'' = Inr 42"
    by (simp add: Atoi_def isDigit_def digitVal_def)
  have "pidFileLoop 0 zeroParams (''42'' @ LF # [])
      = (case pidFileLine 0 ''42'' zeroParams of
           Inl err \<Rightarrow> Inl err | Inr p' \<Rightarrow> pidFileLoop (0 + 1) p' [])"
    using textLine_examples(1) by (rule pidFileLoop_line)
  then have l: "pidFileLoop 0 zeroParams (''42'' @ LF # []) = Inr (zeroParams\<lparr>pid := 42\<rparr>)"
    by (simp only: pidFileLoop_empty) (simp add: pidFileLine_def a)
  show ?thesis
    unfolding c r using l by (simp add: newPostgresConnectionParams_def)
qed

theorem postmaster_pid_fields_witness:
  "newPostgresConnectionParams files0 ''/var/lib/pg/postmaster.pid'' =
     Inr \<lparr>pid = 42, datadirPath = ''/var/lib/pg'', startTs = 1700000000,
          unixSocketDirPath = ''/tmp'', listenAddr = ''127.0.0.1'', listenPort = 5432\<rparr>"
proof -
  have f: "files0 ''/var/lib/pg/postmaster.pid''
      = Inr (pidFileText [''42'', ''/var/lib/pg'', ''1700000000'', ''5432'', ''/tmp''] @ ''*''
             @ LF # pidFileText [''  5432001    196608'', ''ready   ''])"
    by (simp add: files0_def pidFile42_def pidFileText_def)
  have e: "LF # pidFileText [''  5432001    196608'', ''ready   ''] = []
      \<or> hd (LF # pidFileText [''  5432001    196608'', ''ready   '']) = LF"
    by simp
  have t: "\<forall>l \<in> set [''42'', ''/var/lib/pg'', ''1700000000'', ''5432'', ''/tmp'', ''*'']. textLine l"
    using textLine_examples by simp
  have n1: "Atoi ''42'' = Inr 42" and n4: "Atoi ''5432'' = Inr 5432"
    by (simp_all add: Atoi_def isDigit_def digitVal_def)
  have n3: "ParseInt ''1700000000'' = Inr 1700000000"
    by (simp add: ParseInt_def ParseUint_def isDigit_def digitVal_def)
  show ?thesis
    using postmaster_pid_fields [of files0 "''/var/lib/pg/postmaster.pid''", OF f e t n1 n3 n4] by simp
qed

theorem engine_locator_errors_witness:
  "isl (parsePostgresProcessCmdline [''postgres'', ''-D''])
   \<and> \<not> isl (parsePostgresProcessCmdline [''postgres'', ''-D'', ''/var/lib/pg''])
   \<and> isl (newPostgresConnectionParams
          (\<lambda>path. Inr (pidFileText [''42'', ''/var/lib/pg'', ''yesterday'']))
          ''/var/lib/pg/postmaster.pid'')
   \<and> newPostgresConnectionParams (\<lambda>path. Inr (pidFileText [''42'', ''/var/lib/pg'']))
        ''/var/lib/pg/postmaster.pid''
     = Inr \<lparr>pid = 42, datadirPath = ''/var/lib/pg'', startTs = 0, unixSocketDirPath = [],
            listenAddr = [], listenPort = 0\<rparr>
   \<and> readLines (replicate 4096 (CHR ''a'') @ ''b'')
     = replicate 4096 (CHR ''a'') # readLines ''b''"
proof -
  have ty: "textLine ''yesterday''" and te: "textLine []"
    by (simp_all add: textLine_def LF_def CR_def)
  have a42: "Atoi ''42'' = Inr 42"
    by (simp add: Atoi_def isDigit_def digitVal_def)
  have py: "isl (ParseInt ''yesterday'')"
    by (simp add: ParseInt_def ParseUint_def isDigit_def)
  note c1 = engine_locator_errors [of "[''postgres'', ''-D'']" "\<lambda>path. Inl ErrReadFile" "[]"]
  note c2 = engine_locator_errors [of "[''postgres'', ''-D'', ''/var/lib/pg'']"
      "\<lambda>path. Inl ErrReadFile" "[]"]
  have 1: "isl (parsePostgresProcessCmdline [''postgres'', ''-D''])"
    and 2: "\<not> isl (parsePostgresProcessCmdline [''postgres'', ''-D'', ''/var/lib/pg''])"
    using c1 c2 by simp_all
  note e3 = engine_locator_errors [of "[]"
      "\<lambda>path. Inr (pidFileText [''42'', ''/var/lib/pg'', ''yesterday''])"
      "''/var/lib/pg/postmaster.pid''" zeroParams "[''42'', ''/var/lib/pg'', ''yesterday'']" "[]"]
  have r3: "readLines (pidFileText [''42'', ''/var/lib/pg'', ''yesterday''])
      = [''42'', ''/var/lib/pg'', ''yesterday'']"
    using e3 textLine_examples(1,2) ty te by simp
  have 3: "isl (newPostgresConnectionParams
          (\<lambda>path. Inr (pidFileText [''42'', ''/var/lib/pg'', ''yesterday'']))
          ''/var/lib/pg/postmaster.pid'')"
    using e3 r3 py by simp
  let ?f = "\<lambda>path :: string. (Inr (pidFileText [''42'', ''/var/lib/pg'']) :: error + string)"
  have r4: "readLines (pidFileText [''42'', ''/var/lib/pg'']) = [''42'', ''/var/lib/pg'']"
    using engine_locator_errors [of "[]" ?f "[]" zeroParams "[''42'', ''/var/lib/pg'']" "[]"]
      textLine_examples(1,2) te by simp
  have "\<not> isl (newPostgresConnectionParams ?f ''/var/lib/pg/postmaster.pid'')"
    using engine_locator_errors [of "[]" ?f "''/var/lib/pg/postmaster.pid''"] r4 a42
    by simp
  then obtain p where p: "newPostgresConnectionParams ?f ''/var/lib/pg/postmaster.pid'' = Inr p"
    by (cases "newPostgresConnectionParams ?f ''/var/lib/pg/postmaster.pid''") simp_all
  have "p = paramsOfLines [''42'', ''/var/lib/pg'']"
    using engine_locator_errors [of "[]" ?f "''/var/lib/pg/postmaster.pid''" p] p r4
    by simp
  then have 4: "newPostgresConnectionParams ?f ''/var/lib/pg/postmaster.pid''
     = Inr \<lparr>pid = 42, datadirPath = ''/var/lib/pg'', startTs = 0, unixSocketDirPath = [],
            listenAddr = [], listenPort = 0\<rparr>"
    using p by (simp add: paramsOfLines_def intOf_def a42)
  have 5: "readLines (replicate 4096 (CHR ''a'') @ ''b'')
     = replicate 4096 (CHR ''a'') # readLines ''b''"
    using engine_locator_errors [of "[]" "\<lambda>path. Inl ErrReadFile" "[]" zeroParams "[]" "[]"
        "replicate 4096 (CHR ''a'') @ ''b''"]
    by (simp add: LF_def CR_def nth_append)
  from 1 2 3 4 5 show ?thesis by simp
qed

section \<open>The Discovery Loop\<close>

lemma lookupProcess_discovery:
  "lookupProcess config env repo procid =
     (case discovery config env procid of
        Inl err \<Rightarrow> Inl err
      | Inr None \<Rightarrow> Inr repo
      | Inr (Some c) \<Rightarrow>
          if ServiceID (getService (ServiceID c) repo) = ServiceID c then Inr repo
          else Inr (addService (ServiceID c) c repo))"
  by (simp add: lookupProcess_def discovery_def split: sum.splits)

lemma discoverPostgres_service:
  "discoverPostgres proc config env = Inr c \<Longrightarrow> discoveredService c"
  by (auto simp add: discoverPostgres_def discoveredService_def remote_def Let_def
      split: sum.splits)

lemma discoverPgbouncer_service:
  "discoverPgbouncer proc config env = Inr c \<Longrightarrow> discoveredService c"
  by (auto simp add: discoverPgbouncer_def discoveredService_def remote_def Let_def
      split: sum.splits option.splits if_splits)

lemma discovery_service:
  "discovery config env procid = Inr (Some c) \<Longrightarrow> discoveredService c"
  by (auto simp add: discovery_def split: sum.splits if_splits
      dest: discoverPostgres_service discoverPgbouncer_service)

lemma Itoa_no_colon: "CHR '':'' \<notin> set (Itoa i)"
proof
  assume a: "CHR '':'' \<in> set (Itoa i)"
  have "\<not> isDigit (CHR '':'')" by (simp add: isDigit_def)
  with a formatBits_digits [of "CHR '':''"] show False
    by (auto simp add: Itoa_def split: if_splits)
qed

lemma count_list_absent: "x \<notin> set xs \<Longrightarrow> count_list xs x = 0"
  by (induction xs) auto

lemma discoveredService_id:
  assumes "discoveredService c"
  shows "count_list (ServiceID c) (CHR '':'') = 1" and "ServiceID c \<noteq> ''system:0''"
    and "ServiceID c \<noteq> []"
proof -
  from assms obtain port where
    sid: "ServiceID c = ServiceType (ConnSettings c) @ '':'' @ Itoa port"
    and ty: "ServiceType (ConnSettings c) = ''postgres'' \<or> ServiceType (ConnSettings c) = ''pgbouncer''"
    by (auto simp add: discoveredService_def remote_def ServiceTypePostgresql_def
        ServiceTypePgbouncer_def)
  have z: "count_list (Itoa port) (CHR '':'') = 0"
    using Itoa_no_colon by (rule count_list_absent)
  show "count_list (ServiceID c) (CHR '':'') = 1"
    using ty z by (auto simp add: sid)
  show "ServiceID c \<noteq> ''system:0''"
    using ty by (auto simp add: sid)
  show "ServiceID c \<noteq> []"
    by (simp add: sid)
qed

lemma lookupProcess_wellKeyed:
  assumes wk: "wellKeyed repo" and l: "lookupProcess config env repo procid = Inr repo'"
  shows "wellKeyed repo' \<and> (\<forall>k s. repo k = Some s \<longrightarrow> repo' k = Some s)"
proof (cases "discovery config env procid")
  case (Inl err)
  with l show ?thesis by (simp add: lookupProcess_discovery)
next
  case (Inr found)
  show ?thesis
  proof (cases found)
    case None
    with l Inr wk show ?thesis by (simp add: lookupProcess_discovery)
  next
    case (Some c)
    have d: "discoveredService c"
      using Inr Some by (auto dest: discovery_service)
    show ?thesis
    proof (cases "ServiceID (getService (ServiceID c) repo) = ServiceID c")
      case True
      with l Inr Some wk show ?thesis by (simp add: lookupProcess_discovery)
    next
      case False
      have r': "repo' = repo(ServiceID c \<mapsto> c)"
        using l Inr Some False by (simp add: lookupProcess_discovery addService_def)
      have absent: "repo (ServiceID c) = None"
      proof (cases "repo (ServiceID c)")
        case None
        then show ?thesis .
      next
        case (Some s)
        with wk have "ServiceID s = ServiceID c \<or> 2 \<le> count_list (ServiceID c) (CHR '':'')"
          by (auto simp add: wellKeyed_def)
        with discoveredService_id(1) [OF d] have "ServiceID s = ServiceID c" by simp
        with Some False show ?thesis by (simp add: getService_def index_def)
      qed
      have "wellKeyed repo'"
        using wk by (auto simp add: r' wellKeyed_def)
      moreover have "\<forall>k s. repo k = Some s \<longrightarrow> repo' k = Some s"
        using absent by (auto simp add: r')
      ultimately show ?thesis by simp
    qed
  qed
qed

lemma lookupLoop_wellKeyed:
  assumes "wellKeyed repo" and "lookupLoop config env pids repo = Inr repo'"
  shows "wellKeyed repo' \<and> (\<forall>k s. repo k = Some s \<longrightarrow> repo' k = Some s)"
  using assms
proof (induction pids arbitrary: repo)
  case Nil
  then show ?case by simp
next
  case (Cons procid pids)
  from Cons.prems(2) obtain repo1 where
    1: "lookupProcess config env repo procid = Inr repo1"
    and 2: "lookupLoop config env pids repo1 = Inr repo'"
    by (auto split: sum.splits)
  from lookupProcess_wellKeyed [OF Cons.prems(1) 1] Cons.IH [OF _ 2]
  show ?case by auto
qed


text \<open>A candidate is settled in a repository when its id holds a record carrying that id.\<close>

lemma lookupProcess_settles:
  assumes "lookupProcess config env repo procid = Inr repo'"
    and "discovery config env procid = Inr (Some c)"
  shows "ServiceID (getService (ServiceID c) repo') = ServiceID c"
  using assms
  by (auto simp add: lookupProcess_discovery getService_def index_def addService_def
      split: if_splits)

lemma lookupProcess_keeps_settled:
  assumes "lookupProcess config env repo procid = Inr repo'"
    and "ServiceID (getService k repo) = k"
  shows "ServiceID (getService k repo') = k"
proof (cases "discovery config env procid")
  case (Inl err)
  with assms show ?thesis by (simp add: lookupProcess_discovery)
next
  case (Inr found)
  with assms show ?thesis
    by (cases found)
       (auto simp add: lookupProcess_discovery getService_def index_def addService_def
          split: if_splits)
qed

lemma lookupLoop_keeps_settled:
  assumes "lookupLoop config env pids repo = Inr repo'"
    and "ServiceID (getService k repo) = k"
  shows "ServiceID (getService k repo') = k"
  using assms
proof (induction pids arbitrary: repo)
  case Nil
  then show ?case by simp
next
  case (Cons procid pids)
  from Cons.prems(1) obtain repo1 where
    1: "lookupProcess config env repo procid = Inr repo1"
    and 2: "lookupLoop config env pids repo1 = Inr repo'"
    by (auto split: sum.splits)
  from lookupProcess_keeps_settled [OF 1 Cons.prems(2)] Cons.IH [OF 2]
  show ?case by simp
qed

lemma lookupLoop_settles:
  assumes "lookupLoop config env pids repo = Inr repo'"
    and "procid \<in> set pids"
  shows "\<exists>found. discovery config env procid = Inr found
           \<and> (\<forall>c. found = Some c \<longrightarrow> ServiceID (getService (ServiceID c) repo') = ServiceID c)"
  using assms
proof (induction pids arbitrary: repo)
  case Nil
  then show ?case by simp
next
  case (Cons p pids)
  from Cons.prems(1) obtain repo1 where
    1: "lookupProcess config env repo p = Inr repo1"
    and 2: "lookupLoop config env pids repo1 = Inr repo'"
    by (auto split: sum.splits)
  show ?case
  proof (cases "procid = p")
    case True
    from 1 obtain found where f: "discovery config env p = Inr found"
      by (auto simp add: lookupProcess_discovery split: sum.splits)
    have "\<forall>c. found = Some c \<longrightarrow> ServiceID (getService (ServiceID c) repo') = ServiceID c"
    proof (intro allI impI)
      fix c assume "found = Some c"
      with f have "discovery config env p = Inr (Some c)" by simp
      from lookupProcess_settles [OF 1 this]
      show "ServiceID (getService (ServiceID c) repo') = ServiceID c"
        by (rule lookupLoop_keeps_settled [OF 2])
    qed
    with f True show ?thesis by simp
  next
    case False
    with Cons.prems(2) have "procid \<in> set pids" by simp
    from Cons.IH [OF 2 this] show ?thesis .
  qed
qed

lemma lookupLoop_fixed:
  assumes "\<forall>procid \<in> set pids. \<exists>found. discovery config env procid = Inr found
           \<and> (\<forall>c. found = Some c \<longrightarrow> ServiceID (getService (ServiceID c) repo) = ServiceID c)"
  shows "lookupLoop config env pids repo = Inr repo"
  using assms
proof (induction pids)
  case Nil
  show ?case by simp
next
  case (Cons p pids)
  from Cons.prems obtain found where f: "discovery config env p = Inr found"
    and s: "\<forall>c. found = Some c \<longrightarrow> ServiceID (getService (ServiceID c) repo) = ServiceID c"
    by auto
  have "lookupProcess config env repo p = Inr repo"
    using f s by (cases found) (simp_all add: lookupProcess_discovery)
  moreover have "lookupLoop config env pids repo = Inr repo"
    using Cons.prems by (intro Cons.IH) simp
  ultimately show ?case by simp
qed

lemma lookupServices_fixed:
  assumes "lookupServices config env repo = Inr repo'"
  shows "lookupServices config env repo' = Inr repo'"
proof -
  from assms obtain pids where p: "Pids env = Inr pids"
    and l: "lookupLoop config env pids repo = Inr repo'"
    by (auto simp add: lookupServices_def split: sum.splits)
  have "lookupLoop config env pids repo' = Inr repo'"
    using lookupLoop_settles [OF l] by (intro lookupLoop_fixed) blast
  with p show ?thesis by (simp add: lookupServices_def)
qed

lemma lookupServices_wellKeyed:
  assumes "wellKeyed repo" and "lookupServices config env repo = Inr repo'"
  shows "wellKeyed repo' \<and> (\<forall>k s. repo k = Some s \<longrightarrow> repo' k = Some s)"
proof -
  from assms(2) obtain pids where l: "lookupLoop config env pids repo = Inr repo'"
    by (auto simp add: lookupServices_def split: sum.splits)
  from lookupLoop_wellKeyed [OF assms(1) l] show ?thesis .
qed


lemma wellKeyed_new: "wellKeyed NewRepository"
  by (simp add: wellKeyed_def NewRepository_def)

lemma wellKeyed_system:
  "wellKeyed repo \<Longrightarrow> wellKeyed (addService ''system:0'' systemService repo)"
  by (auto simp add: wellKeyed_def addService_def systemService_def)

lemma addServiceFromConfig_wellKeyed:
  assumes "wellKeyed repo"
  shows "wellKeyed (addServiceFromConfig env repo cs)"
proof -
  have two: "\<And>host port. 2 \<le> count_list (ServiceType cs @ '':'' @ host @ '':'' @ Itoa (int port)) (CHR '':'')"
    by simp
  show ?thesis
    using assms two
    by (auto simp add: addServiceFromConfig_def addService_def wellKeyed_def Let_def
        simp del: count_list_append
        split: sum.splits option.splits)
qed

lemma addServicesFromConfig_wellKeyed:
  assumes "wellKeyed repo"
  shows "wellKeyed (addServicesFromConfig config env repo)"
proof -
  have "\<And>r. wellKeyed r \<Longrightarrow> wellKeyed (foldl (addServiceFromConfig env) r css)" for css
    by (induction css) (simp_all add: addServiceFromConfig_wellKeyed)
  with wellKeyed_system [OF assms] show ?thesis
    by (simp add: addServicesFromConfig_def)
qed

lemma setupService_wellKeyed:
  assumes "wellKeyed (Services w)" and "setupService config env w sid = (w', err)"
  shows "wellKeyed (Services w')"
proof (cases "Services w sid")
  case None
  then have "setupService config env w sid = (w, None)"
    by (simp add: setupService_def getService_def index_def zeroService_def
        ServiceTypeSystem_def ServiceTypePostgresql_def ServiceTypePgbouncer_def)
  with assms show ?thesis by simp
next
  case (Some s)
  have u: "wellKeyed ((Services w)(sid \<mapsto> s\<lparr>Collector := c\<rparr>))" for c
    unfolding wellKeyed_def
  proof (intro allI impI)
    fix k r
    assume "((Services w)(sid \<mapsto> s\<lparr>Collector := c\<rparr>)) k = Some r"
    then have "(k = sid \<and> r = s\<lparr>Collector := c\<rparr>) \<or> Services w k = Some r"
      by (auto split: if_splits)
    moreover have "ServiceID s = sid \<or> 2 \<le> count_list sid (CHR '':'')"
      using assms(1) Some unfolding wellKeyed_def by blast
    moreover have "Services w k = Some r \<Longrightarrow> ServiceID r = k \<or> 2 \<le> count_list k (CHR '':'')"
      using assms(1) unfolding wellKeyed_def by blast
    ultimately show "ServiceID r = k \<or> 2 \<le> count_list k (CHR '':'')"
      by auto
  qed
  have a: "\<And>v e. attachCollector env w sid s = (v, e) \<Longrightarrow> wellKeyed (Services v)"
    using assms(1) u
    by (auto simp add: attachCollector_def addService_def
        split: sum.splits option.splits)
  show ?thesis
    using assms Some a
    by (auto simp add: setupService_def getService_def index_def Let_def
        split: if_splits option.splits)
qed

lemma setupLoop_wellKeyed:
  assumes "wellKeyed (Services w)" and "setupLoop config env ids w = (w', err)"
  shows "wellKeyed (Services w')"
  using assms
proof (induction ids arbitrary: w)
  case Nil
  then show ?case by simp
next
  case (Cons sid ids)
  obtain w1 e1 where 1: "setupService config env w sid = (w1, e1)"
    by (cases "setupService config env w sid")
  have k: "wellKeyed (Services w1)"
    using Cons.prems(1) 1 by (rule setupService_wellKeyed)
  show ?case
  proof (cases e1)
    case None
    with Cons.prems(2) 1 have "setupLoop config env ids w1 = (w', err)" by simp
    from Cons.IH [OF k this] show ?thesis .
  next
    case (Some e)
    with Cons.prems(2) 1 k show ?thesis by simp
  qed
qed

lemma healthcheckService_wellKeyed:
  assumes "wellKeyed (Services w)"
  shows "wellKeyed (Services (healthcheckService ac w sid))"
proof (cases "Services w sid")
  case None
  then have "healthcheckService ac w sid = w"
    by (simp add: healthcheckService_def getService_def index_def zeroService_def
        ServiceTypePostgresql_def ServiceTypePgbouncer_def)
  with assms show ?thesis by simp
next
  case (Some s)
  with assms show ?thesis
    by (auto simp add: healthcheckService_def getService_def index_def Let_def wellKeyed_def
        markServiceFailed_def removeService_def split: option.splits if_splits)
qed

lemma healthcheckServices_wellKeyed:
  assumes "wellKeyed (Services w)"
  shows "wellKeyed (Services (healthcheckServices ac ids w))"
  unfolding healthcheckServices_def using assms
  by (induction ids arbitrary: w) (simp_all add: healthcheckService_wellKeyed)

lemma reachable_wellKeyed: "reachable w \<Longrightarrow> wellKeyed (Services w)"
proof (induction rule: reachable.induct)
  case (by_new R)
  show ?case by (simp add: wellKeyed_new)
next
  case (by_config w config env)
  then show ?case by (simp add: addServicesFromConfig_wellKeyed)
next
  case (by_system w)
  then show ?case by (simp add: wellKeyed_system)
next
  case (by_lookup w config env repo)
  from lookupServices_wellKeyed [OF by_lookup.IH by_lookup.hyps(2)]
  show ?case by simp
next
  case (by_setup w config env ids w' err)
  from by_setup.IH by_setup.hyps(2) show ?case
    unfolding setupServices_def by (rule setupLoop_wellKeyed)
next
  case (by_health w ac ids)
  then show ?case by (simp add: healthcheckServices_wellKeyed)
qed

text \<open>
  C6. In a world the repository can be in, a discovery tick leaves every record that is
  already stored as it is, and a second tick in the same surroundings, applied to the
  result of the first, returns the repository unchanged.
\<close>

theorem rediscovery_changes_nothing:
  assumes "reachable w" and "lookupServices config env (Services w) = Inr repo1"
  shows "(\<forall>k s. Services w k = Some s \<longrightarrow> repo1 k = Some s)
       \<and> lookupServices config env repo1 = Inr repo1"
proof -
  have "wellKeyed (Services w)"
    using assms(1) by (rule reachable_wellKeyed)
  from lookupServices_wellKeyed [OF this assms(2)] lookupServices_fixed [OF assms(2)]
  show ?thesis by simp
qed


lemma Itoa_5432: "Itoa 5432 = ''5432''"
  by (simp add: Itoa_def formatBits.simps digitChar_def)

lemma params42:
  "newPostgresConnectionParams files0 ''/var/lib/pg/postmaster.pid'' =
     Inr \<lparr>pid = 42, datadirPath = ''/var/lib/pg'', startTs = 1700000000,
          unixSocketDirPath = ''/tmp'', listenAddr = ''127.0.0.1'', listenPort = 5432\<rparr>"
proof -
  have f: "files0 ''/var/lib/pg/postmaster.pid''
      = Inr (pidFileText [''42'', ''/var/lib/pg'', ''1700000000'', ''5432'', ''/tmp''] @ ''*''
             @ LF # pidFileText [''  5432001    196608'', ''ready   ''])"
    by (simp add: files0_def pidFile42_def pidFileText_def)
  have e: "LF # pidFileText [''  5432001    196608'', ''ready   ''] = []
      \<or> hd (LF # pidFileText [''  5432001    196608'', ''ready   '']) = LF"
    by simp
  have t: "\<forall>l \<in> set [''42'', ''/var/lib/pg'', ''1700000000'', ''5432'', ''/tmp'', ''*'']. textLine l"
    using textLine_examples by simp
  have n1: "Atoi ''42'' = Inr 42" and n4: "Atoi ''5432'' = Inr 5432"
    by (simp_all add: Atoi_def isDigit_def digitVal_def)
  have n3: "ParseInt ''1700000000'' = Inr 1700000000"
    by (simp add: ParseInt_def ParseUint_def isDigit_def digitVal_def)
  show ?thesis
    using pidFile_six_lines [of files0 "''/var/lib/pg/postmaster.pid''", OF f e t n1 n3 n4] by simp
qed

lemma discover42_up:
  "discoverPostgres proc42 config0 env0 = Inr (pg5432\<lparr>Collector := None\<rparr>)"
  by (simp add: discoverPostgres_def proc42_def env0_def config0_def params42 Itoa_5432
      newPostgresConnectionString_def up_def pg5432_def ServiceTypePostgresql_def
      defaultPostgresUsername_def defaultPostgresDbname_def Let_def)

lemma discover42_down:
  "discoverPostgres proc42 config0 (env0\<lparr>attemptConnect := down\<rparr>)
     = Inr \<lparr>ServiceID = ''postgres:5432'',
            ConnSettings = \<lparr>ServiceType = ServiceTypePostgresql,
              Conninfo = ''application_name=pgscv host=127.0.0.1 port=5432 user=pgscv dbname=postgres''\<rparr>,
            Collector = None, TotalErrors = 0\<rparr>"
  by (simp add: discoverPostgres_def proc42_def env0_def config0_def params42 Itoa_5432
      newPostgresConnectionString_def down_def ServiceTypePostgresql_def
      defaultPostgresUsername_def defaultPostgresDbname_def Let_def)

lemma lookup42_up:
  "lookupServices config0 env0 NewRepository
     = Inr (NewRepository(''postgres:5432'' \<mapsto> pg5432\<lparr>Collector := None\<rparr>))"
proof -
  have np: "NewProcess env0 42 = Inr proc42" and pids: "Pids env0 = Inr [42]"
    by (simp_all add: env0_def)
  have nm: "Name proc42 = Inr ''postgres''" and pp: "Ppid proc42 = 1"
    by (simp_all add: proc42_def)
  show ?thesis
    by (simp add: lookupServices_def pids lookupProcess_def np nm pp discover42_up
        getService_def index_def NewRepository_def zeroService_def pg5432_def addService_def)
qed

lemma lookup42_again:
  "lookupServices config0 env0 (Services world1) = Inr (Services world1)"
proof -
  have np: "NewProcess env0 42 = Inr proc42" and pids: "Pids env0 = Inr [42]"
    by (simp_all add: env0_def)
  have nm: "Name proc42 = Inr ''postgres''" and pp: "Ppid proc42 = 1"
    by (simp_all add: proc42_def)
  show ?thesis
    by (simp add: lookupServices_def pids lookupProcess_def np nm pp discover42_up
        getService_def index_def NewRepository_def world1_def pg5432_def)
qed

lemma reachable_world1: "reachable world1"
proof -
  have "reachable \<lparr>Services = NewRepository, registered = {}, probed = []\<rparr>"
    by (rule reachable.by_new)
  from reachable.by_lookup [OF this, of config0 env0
      "NewRepository(''postgres:5432'' \<mapsto> pg5432\<lparr>Collector := None\<rparr>)"]
  show ?thesis
    by (simp add: lookup42_up world1_def)
qed

theorem rediscovery_changes_nothing_witness:
  "reachable world1
   \<and> lookupServices config0 env0 (Services world1) = Inr (Services world1)
   \<and> Services world1 ''postgres:5432'' = Some (pg5432\<lparr>Collector := None\<rparr>)"
  using rediscovery_changes_nothing [OF reachable_world1 lookup42_again]
    reachable_world1 lookup42_again
  by (simp add: world1_def)

text \<open>
  C4 (what the code does at the failing input). One relational engine, parent pid 1, with
  a valid pid file, and every test connection fails. The discovery tick still adds the
  record \<open>postgres:5432\<close>, with the TCP connection string built last.
\<close>

theorem unreachable_postgres_is_admitted:
  "lookupServices config0 (env0\<lparr>attemptConnect := down\<rparr>) NewRepository
     = Inr (NewRepository(''postgres:5432'' \<mapsto>
         \<lparr>ServiceID = ''postgres:5432'',
          ConnSettings = \<lparr>ServiceType = ServiceTypePostgresql,
            Conninfo = ''application_name=pgscv host=127.0.0.1 port=5432 user=pgscv dbname=postgres''\<rparr>,
          Collector = None, TotalErrors = 0\<rparr>))"
proof -
  have np: "NewProcess env0 42 = Inr proc42" and pids: "Pids env0 = Inr [42]"
    by (simp_all add: env0_def)
  have nm: "Name proc42 = Inr ''postgres''" and pp: "Ppid proc42 = 1"
    by (simp_all add: proc42_def)
  show ?thesis
    by (simp add: lookupServices_def pids lookupProcess_def np nm pp discover42_down
        getService_def index_def NewRepository_def zeroService_def addService_def)
qed

text \<open>
  C3 as stated fails: the engine that listens on 127.0.0.1:5432 is stored under
  \<open>postgres:5432\<close>; there is no record under \<open>postgres:127.0.0.1:5432\<close>.
\<close>

theorem discovered_key_has_no_host:
  "lookupServices config0 env0 NewRepository
     = Inr (NewRepository(''postgres:5432'' \<mapsto> pg5432\<lparr>Collector := None\<rparr>))
   \<and> (NewRepository(''postgres:5432'' \<mapsto> pg5432\<lparr>Collector := None\<rparr>))
        ''postgres:127.0.0.1:5432'' = None
   \<and> listenAddr \<lparr>pid = 42, datadirPath = ''/var/lib/pg'', startTs = 1700000000,
          unixSocketDirPath = ''/tmp'', listenAddr = ''127.0.0.1'', listenPort = 5432\<rparr>
        = ''127.0.0.1''"
  using lookup42_up by (simp add: NewRepository_def)

lemma lookupProcess_changes:
  assumes "lookupProcess config env repo procid = Inr repo'" and "repo' k \<noteq> repo k"
  shows "\<exists>s. repo' k = Some s \<and> discoveredService s \<and> ServiceID s = k"
proof (cases "discovery config env procid")
  case (Inl err)
  with assms show ?thesis by (simp add: lookupProcess_discovery)
next
  case (Inr found)
  show ?thesis
  proof (cases found)
    case None
    with assms Inr show ?thesis by (simp add: lookupProcess_discovery)
  next
    case (Some c)
    have d: "discoveredService c"
      using Inr Some by (auto dest: discovery_service)
    from assms Inr Some have "repo' = repo(ServiceID c \<mapsto> c)"
      by (auto simp add: lookupProcess_discovery addService_def split: if_splits)
    with assms(2) d show ?thesis by (auto split: if_splits)
  qed
qed

lemma lookupLoop_changes:
  assumes "lookupLoop config env pids repo = Inr repo'" and "repo' k \<noteq> repo k"
  shows "\<exists>s. repo' k = Some s \<and> discoveredService s \<and> ServiceID s = k"
  using assms
proof (induction pids arbitrary: repo)
  case Nil
  then show ?case by simp
next
  case (Cons procid pids)
  from Cons.prems(1) obtain repo1 where
    1: "lookupProcess config env repo procid = Inr repo1"
    and 2: "lookupLoop config env pids repo1 = Inr repo'"
    by (auto split: sum.splits)
  show ?case
  proof (cases "repo' k = repo1 k")
    case True
    with Cons.prems(2) have "repo1 k \<noteq> repo k" by simp
    from lookupProcess_changes [OF 1 this] True show ?thesis by simp
  next
    case False
    from Cons.IH [OF 2 False] show ?thesis .
  qed
qed

lemma addServicesFromConfig_system:
  "addServicesFromConfig config env repo ''system:0'' = Some systemService"
proof -
  have other: "\<And>key s r k. count_list key (CHR '':'') \<noteq> count_list k (CHR '':'')
      \<Longrightarrow> addService key s r k = r k"
    by (auto simp add: addService_def)
  have one: "\<And>r cs. addServiceFromConfig env r cs ''system:0'' = r ''system:0''"
    by (simp add: addServiceFromConfig_def Let_def other split: sum.splits option.splits)
  have "\<And>r. foldl (addServiceFromConfig env) r css ''system:0'' = r ''system:0''" for css
    by (induction css) (simp_all add: one)
  then show ?thesis
    by (simp add: addServicesFromConfig_def addService_def)
qed

lemma discoverPostgres_located:
  assumes "discoverPostgres proc config env = Inr c"
  shows "\<exists>cmdline datadirCmdPath connParams.
          CmdlineSlice proc = Inr cmdline
          \<and> parsePostgresProcessCmdline cmdline = Inr datadirCmdPath
          \<and> newPostgresConnectionParams (ReadFile env) (datadirCmdPath @ ''/postmaster.pid'')
              = Inr connParams
          \<and> ServiceType (ConnSettings c) = ServiceTypePostgresql
          \<and> ServiceID c = ServiceTypePostgresql @ '':'' @ Itoa (listenPort connParams)"
  using assms
  by (auto simp add: discoverPostgres_def Let_def split: sum.splits)

lemma discoverPgbouncer_located:
  assumes "discoverPgbouncer proc config env = Inr c"
  shows "\<exists>cmdline configFilePath connParams.
          Cmdline proc = Inr cmdline
          \<and> parsePgbouncerCmdline cmdline = Inr configFilePath
          \<and> parsePgbouncerIniFile (Open env) configFilePath = Inr connParams
          \<and> ServiceType (ConnSettings c) = ServiceTypePgbouncer
          \<and> ServiceID c = ServiceTypePgbouncer @ '':'' @ Itoa (listenPort connParams)"
  using assms
  by (auto simp add: discoverPgbouncer_def Let_def split: sum.splits option.splits if_splits)

lemma discovery_located:
  assumes "discovery config env procid = Inr (Some c)"
  shows "\<exists>proc. NewProcess env procid = Inr proc \<and> locatedBy env proc c"
proof -
  from assms obtain proc name where np: "NewProcess env procid = Inr proc"
    and nm: "Name proc = Inr name"
    by (auto simp add: discovery_def split: sum.splits)
  show ?thesis
  proof (cases "name = ''postgres''")
    case True
    with assms np nm have pp: "Ppid proc = 1"
      and d: "discoverPostgres proc config env = Inr c"
      by (auto simp add: discovery_def split: sum.splits if_splits)
    from discoverPostgres_located [OF d] np nm True pp show ?thesis
      unfolding locatedBy_def by blast
  next
    case False
    with assms np nm have pb: "name = ''pgbouncer''"
      and d: "discoverPgbouncer proc config env = Inr c"
      by (auto simp add: discovery_def split: sum.splits if_splits)
    from discoverPgbouncer_located [OF d] np nm pb show ?thesis
      unfolding locatedBy_def by blast
  qed
qed

lemma lookupProcess_located:
  assumes "lookupProcess config env repo procid = Inr repo'" and "repo' k \<noteq> repo k"
  shows "\<exists>s proc. NewProcess env procid = Inr proc \<and> locatedBy env proc s
           \<and> repo' k = Some s \<and> ServiceID s = k"
proof (cases "discovery config env procid")
  case (Inl err)
  with assms show ?thesis by (simp add: lookupProcess_discovery)
next
  case (Inr found)
  show ?thesis
  proof (cases found)
    case None
    with assms Inr show ?thesis by (simp add: lookupProcess_discovery)
  next
    case (Some c)
    from Inr Some obtain proc where
      l: "NewProcess env procid = Inr proc" "locatedBy env proc c"
      by (auto dest: discovery_located)
    from assms Inr Some have "repo' = repo(ServiceID c \<mapsto> c)"
      by (auto simp add: lookupProcess_discovery addService_def split: if_splits)
    with assms(2) have "repo' k = Some c \<and> ServiceID c = k"
      by (auto split: if_splits)
    with l show ?thesis by blast
  qed
qed

lemma lookupLoop_located:
  assumes "lookupLoop config env pids repo = Inr repo'" and "repo' k \<noteq> repo k"
  shows "\<exists>s procid proc. procid \<in> set pids \<and> NewProcess env procid = Inr proc
           \<and> locatedBy env proc s \<and> repo' k = Some s \<and> ServiceID s = k"
  using assms
proof (induction pids arbitrary: repo)
  case Nil
  then show ?case by simp
next
  case (Cons p pids)
  from Cons.prems(1) obtain repo1 where
    1: "lookupProcess config env repo p = Inr repo1"
    and 2: "lookupLoop config env pids repo1 = Inr repo'"
    by (auto split: sum.splits)
  show ?case
  proof (cases "repo' k = repo1 k")
    case True
    with Cons.prems(2) have "repo1 k \<noteq> repo k" by simp
    from lookupProcess_located [OF 1 this] obtain s proc where
      "NewProcess env p = Inr proc" "locatedBy env proc s" "repo1 k = Some s" "ServiceID s = k"
      by blast
    with True have "p \<in> set (p # pids) \<and> NewProcess env p = Inr proc
           \<and> locatedBy env proc s \<and> repo' k = Some s \<and> ServiceID s = k"
      by simp
    then show ?thesis by blast
  next
    case False
    from Cons.IH [OF 2 False] obtain s procid proc where
      "procid \<in> set pids" "NewProcess env procid = Inr proc"
      "locatedBy env proc s" "repo' k = Some s" "ServiceID s = k"
      by blast
    then have "procid \<in> set (p # pids) \<and> NewProcess env procid = Inr proc
           \<and> locatedBy env proc s \<and> repo' k = Some s \<and> ServiceID s = k"
      by simp
    then show ?thesis by blast
  qed
qed

lemma discoverPostgres_port:
  assumes "CmdlineSlice proc = Inr cmdline"
    and "parsePostgresProcessCmdline cmdline = Inr datadirCmdPath"
    and "ReadFile env (datadirCmdPath @ ''/postmaster.pid'')
          = Inr (pidFileText [l1, l2, l3, l4, l5] @ l6 @ ending)"
    and "ending = [] \<or> hd ending = LF"
    and "\<forall>l \<in> set [l1, l2, l3, l4, l5, l6]. textLine l"
    and "Atoi l1 = Inr pidv" and "ParseInt l3 = Inr ts" and "Atoi l4 = Inr port"
  shows "\<exists>conninfo. discoverPostgres proc config env
      = Inr \<lparr>ServiceID = ServiceTypePostgresql @ '':'' @ Itoa port,
             ConnSettings = \<lparr>ServiceType = ServiceTypePostgresql, Conninfo = conninfo\<rparr>,
             Collector = None, TotalErrors = 0\<rparr>"
proof -
  have "newPostgresConnectionParams (ReadFile env) (datadirCmdPath @ ''/postmaster.pid'') =
     Inr \<lparr>pid = pidv, datadirPath = l2, startTs = ts, unixSocketDirPath = l5,
          listenAddr = (if l6 = ''*'' then ''127.0.0.1'' else l6), listenPort = port\<rparr>"
    using assms(3-8) by (rule pidFile_six_lines)
  then show ?thesis
    using assms(1,2) by (simp add: discoverPostgres_def Let_def)
qed

text \<open>
  C3, as the code has it. A record that a discovery tick adds is stored under its own id
  and is located by a process of the process table: the id is the service type, a colon
  and, in decimal, the listen port of the parameters read from that process's pid file or
  ini file; the host is not part of it. For a relational engine whose pid file has six
  lines of text, the port is the number on the fourth line. The supervisor and the
  bootstrap from the configuration store the host pseudo-service under \<open>system:0\<close>.
\<close>

theorem discovered_key_is_type_and_port:
  "(lookupServices config env repo = Inr repo' \<and> repo' k \<noteq> repo k
      \<longrightarrow> (\<exists>s pids procid proc.
             Pids env = Inr pids \<and> procid \<in> set pids \<and> NewProcess env procid = Inr proc
             \<and> locatedBy env proc s \<and> remote s \<and> repo' k = Some s \<and> ServiceID s = k))
   \<and> (CmdlineSlice proc = Inr cmdline
        \<and> parsePostgresProcessCmdline cmdline = Inr datadirCmdPath
        \<and> ReadFile env (datadirCmdPath @ ''/postmaster.pid'')
            = Inr (pidFileText [l1, l2, l3, l4, l5] @ l6 @ ending)
        \<and> (ending = [] \<or> hd ending = LF)
        \<and> (\<forall>l \<in> set [l1, l2, l3, l4, l5, l6]. textLine l)
        \<and> Atoi l1 = Inr pidv \<and> ParseInt l3 = Inr ts \<and> Atoi l4 = Inr port
      \<longrightarrow> (\<exists>conninfo. discoverPostgres proc config env
            = Inr \<lparr>ServiceID = ServiceTypePostgresql @ '':'' @ Itoa port,
                   ConnSettings = \<lparr>ServiceType = ServiceTypePostgresql, Conninfo = conninfo\<rparr>,
                   Collector = None, TotalErrors = 0\<rparr>))
   \<and> startBackgroundDiscovery config [] w
       = Inr (w\<lparr>Services := (Services w)(''system:0'' \<mapsto> systemService)\<rparr>)
   \<and> addServicesFromConfig config env repo ''system:0'' = Some systemService"
proof -
  have a: "lookupServices config env repo = Inr repo' \<and> repo' k \<noteq> repo k
      \<longrightarrow> (\<exists>s pids procid proc.
             Pids env = Inr pids \<and> procid \<in> set pids \<and> NewProcess env procid = Inr proc
             \<and> locatedBy env proc s \<and> remote s \<and> repo' k = Some s \<and> ServiceID s = k)"
  proof
    assume h: "lookupServices config env repo = Inr repo' \<and> repo' k \<noteq> repo k"
    then obtain pids where p: "Pids env = Inr pids"
      and l: "lookupLoop config env pids repo = Inr repo'"
      by (auto simp add: lookupServices_def split: sum.splits)
    from lookupLoop_located [OF l] h obtain s procid proc where
      s: "procid \<in> set pids" "NewProcess env procid = Inr proc" "locatedBy env proc s"
        "repo' k = Some s" "ServiceID s = k"
      by blast
    from s(3) have "remote s"
      by (auto simp add: locatedBy_def remote_def)
    with p s show "\<exists>s pids procid proc.
             Pids env = Inr pids \<and> procid \<in> set pids \<and> NewProcess env procid = Inr proc
             \<and> locatedBy env proc s \<and> remote s \<and> repo' k = Some s \<and> ServiceID s = k"
      by blast
  qed
  have b: "CmdlineSlice proc = Inr cmdline
        \<and> parsePostgresProcessCmdline cmdline = Inr datadirCmdPath
        \<and> ReadFile env (datadirCmdPath @ ''/postmaster.pid'')
            = Inr (pidFileText [l1, l2, l3, l4, l5] @ l6 @ ending)
        \<and> (ending = [] \<or> hd ending = LF)
        \<and> (\<forall>l \<in> set [l1, l2, l3, l4, l5, l6]. textLine l)
        \<and> Atoi l1 = Inr pidv \<and> ParseInt l3 = Inr ts \<and> Atoi l4 = Inr port
      \<longrightarrow> (\<exists>conninfo. discoverPostgres proc config env
            = Inr \<lparr>ServiceID = ServiceTypePostgresql @ '':'' @ Itoa port,
                   ConnSettings = \<lparr>ServiceType = ServiceTypePostgresql, Conninfo = conninfo\<rparr>,
                   Collector = None, TotalErrors = 0\<rparr>)"
    using discoverPostgres_port [of proc cmdline datadirCmdPath env l1 l2 l3 l4 l5 l6 ending
        pidv ts port config]
    by blast
  have c: "startBackgroundDiscovery config [] w
       = Inr (w\<lparr>Services := (Services w)(''system:0'' \<mapsto> systemService)\<rparr>)"
    by (simp add: startBackgroundDiscovery_def addService_def)
  have d: "addServicesFromConfig config env repo ''system:0'' = Some systemService"
    by (rule addServicesFromConfig_system)
  from a b c d show ?thesis by blast
qed

theorem discovered_key_is_type_and_port_witness:
  "lookupServices config0 env0 NewRepository
     = Inr (NewRepository(''postgres:5432'' \<mapsto> pg5432\<lparr>Collector := None\<rparr>))
   \<and> locatedBy env0 proc42 (pg5432\<lparr>Collector := None\<rparr>)
   \<and> discoverPostgres proc42 config0 env0 = Inr (pg5432\<lparr>Collector := None\<rparr>)
   \<and> ServiceID (pg5432\<lparr>Collector := None\<rparr>) = ServiceTypePostgresql @ '':'' @ Itoa 5432
   \<and> ServiceID (pg5432\<lparr>Collector := None\<rparr>) = ''postgres:5432''"
proof -
  let ?s = "pg5432\<lparr>Collector := None\<rparr>"
  let ?r = "NewRepository(''postgres:5432'' \<mapsto> ?s)"
  have ch: "?r ''postgres:5432'' \<noteq> NewRepository ''postgres:5432''"
    by (simp add: NewRepository_def)
  note inst = discovered_key_is_type_and_port [of config0 env0 NewRepository ?r "''postgres:5432''"
      proc42 "[''/usr/lib/postgresql/13/bin/postgres'', ''-D'', ''/var/lib/pg'']" "''/var/lib/pg''"
      "''42''" "''/var/lib/pg''" "''1700000000''" "''5432''" "''/tmp''" "''*''"
      "LF # pidFileText [''  5432001    196608'', ''ready   '']" 42 1700000000 5432 world0]
  from inst [THEN conjunct1] lookup42_up ch
  obtain s pids procid proc where
    s: "Pids env0 = Inr pids" "procid \<in> set pids" "NewProcess env0 procid = Inr proc"
      "locatedBy env0 proc s" "?r ''postgres:5432'' = Some s"
    by blast
  from s(1,2) have "procid = 42" by (auto simp add: env0_def)
  with s(3) have "proc = proc42" by (simp add: env0_def)
  moreover from s(5) have "s = ?s" by simp
  ultimately have 1: "locatedBy env0 proc42 ?s" using s(4) by simp
  have f: "ReadFile env0 (''/var/lib/pg'' @ ''/postmaster.pid'')
      = Inr (pidFileText [''42'', ''/var/lib/pg'', ''1700000000'', ''5432'', ''/tmp''] @ ''*''
             @ LF # pidFileText [''  5432001    196608'', ''ready   ''])"
    by (simp add: env0_def files0_def pidFile42_def pidFileText_def)
  have t: "\<forall>l \<in> set [''42'', ''/var/lib/pg'', ''1700000000'', ''5432'', ''/tmp'', ''*'']. textLine l"
    using textLine_examples by simp
  have n1: "Atoi ''42'' = Inr 42" and n4: "Atoi ''5432'' = Inr 5432"
    by (simp_all add: Atoi_def isDigit_def digitVal_def)
  have n3: "ParseInt ''1700000000'' = Inr 1700000000"
    by (simp add: ParseInt_def ParseUint_def isDigit_def digitVal_def)
  have cs: "CmdlineSlice proc42
      = Inr [''/usr/lib/postgresql/13/bin/postgres'', ''-D'', ''/var/lib/pg'']"
    by (simp add: proc42_def)
  have pc: "parsePostgresProcessCmdline
      [''/usr/lib/postgresql/13/bin/postgres'', ''-D'', ''/var/lib/pg''] = Inr ''/var/lib/pg''"
    by simp
  have e: "hd (LF # pidFileText [''  5432001    196608'', ''ready   '']) = LF"
    by simp
  from inst [THEN conjunct2, THEN conjunct1] cs pc f e t n1 n3 n4
  obtain conninfo where
    "discoverPostgres proc42 config0 env0
      = Inr \<lparr>ServiceID = ServiceTypePostgresql @ '':'' @ Itoa 5432,
             ConnSettings = \<lparr>ServiceType = ServiceTypePostgresql, Conninfo = conninfo\<rparr>,
             Collector = None, TotalErrors = 0\<rparr>"
    by blast
  with discover42_up have eq:
    "\<lparr>ServiceID = ServiceTypePostgresql @ '':'' @ Itoa 5432,
      ConnSettings = \<lparr>ServiceType = ServiceTypePostgresql, Conninfo = conninfo\<rparr>,
      Collector = None, TotalErrors = 0\<rparr> = ?s"
    by simp
  from arg_cong [OF eq, of ServiceID]
  have 2: "ServiceID ?s = ServiceTypePostgresql @ '':'' @ Itoa 5432"
    by simp
  have 3: "ServiceID ?s = ''postgres:5432''"
    by (simp add: pg5432_def)
  from lookup42_up 1 discover42_up 2 3 show ?thesis by simp
qed

section \<open>The host pseudo-service\<close>

lemma lookupServices_system:
  assumes "lookupServices config env repo = Inr repo'"
  shows "repo' ''system:0'' = repo ''system:0''"
proof (rule ccontr)
  assume n: "repo' ''system:0'' \<noteq> repo ''system:0''"
  from assms obtain pids where "lookupLoop config env pids repo = Inr repo'"
    by (auto simp add: lookupServices_def split: sum.splits)
  from lookupLoop_changes [OF this n] obtain s where
    "discoveredService s" "ServiceID s = ''system:0''" by blast
  with discoveredService_id(2) [of s] show False by simp
qed

lemma systemService_not_remote: "\<not> remote (systemService\<lparr>Collector := c\<rparr>)"
  by (simp add: remote_def systemService_def ServiceTypeSystem_def ServiceTypePostgresql_def
      ServiceTypePgbouncer_def)

lemma healthcheckService_system:
  assumes "systemPresent w"
  shows "systemPresent (healthcheckService ac w sid)"
proof (cases "sid = ''system:0''")
  case True
  from assms obtain c where c: "Services w ''system:0'' = Some (systemService\<lparr>Collector := c\<rparr>)"
    by (auto simp add: systemPresent_def)
  have "healthcheckService ac w ''system:0'' = w"
    using c systemService_not_remote [of c]
    by (simp add: healthcheckService_def getService_def index_def remote_def)
  with assms True show ?thesis by simp
next
  case False
  have s: "Services (healthcheckService ac w sid) ''system:0'' = Services w ''system:0''"
    using False by (intro healthcheckService_other) simp
  have "set (probed (healthcheckService ac w sid)) \<subseteq> insert sid (set (probed w))"
    by (auto simp add: healthcheckService_def Let_def split: option.splits)
  with assms False s show ?thesis
    by (auto simp add: systemPresent_def)
qed

lemma healthcheckServices_system:
  assumes "systemPresent w"
  shows "systemPresent (healthcheckServices ac ids w)"
  unfolding healthcheckServices_def using assms
  by (induction ids arbitrary: w) (simp_all add: healthcheckService_system)

lemma setupService_system:
  assumes "systemPresent w" and "setupService config env w sid = (w', err)"
  shows "systemPresent w'"
proof -
  from assms(1) obtain c where c: "Services w ''system:0'' = Some (systemService\<lparr>Collector := c\<rparr>)"
    and p: "''system:0'' \<notin> set (probed w)"
    by (auto simp add: systemPresent_def)
  let ?s = "getService sid (Services w)"
  have own: "sid = ''system:0'' \<Longrightarrow> ?s = systemService\<lparr>Collector := c\<rparr>"
    using c by (simp add: getService_def index_def)
  have a: "systemPresent v" if "attachCollector env w sid ?s = (v, e)" for v e
  proof (cases "sid = ''system:0''")
    case True
    with that own c p show ?thesis
      by (auto simp add: attachCollector_def addService_def systemPresent_def
          split: sum.splits option.splits)
  next
    case False
    with that c p show ?thesis
      by (auto simp add: attachCollector_def addService_def systemPresent_def
          split: sum.splits option.splits)
  qed
  show ?thesis
    using assms a
    by (auto simp add: setupService_def Let_def split: if_splits option.splits)
qed

lemma setupLoop_system:
  assumes "systemPresent w" and "setupLoop config env ids w = (w', err)"
  shows "systemPresent w'"
  using assms
proof (induction ids arbitrary: w)
  case Nil
  then show ?case by simp
next
  case (Cons sid ids)
  obtain w1 e1 where 1: "setupService config env w sid = (w1, e1)"
    by (cases "setupService config env w sid")
  have k: "systemPresent w1"
    using Cons.prems(1) 1 by (rule setupService_system)
  show ?case
  proof (cases e1)
    case None
    with Cons.prems(2) 1 have "setupLoop config env ids w1 = (w', err)" by simp
    from Cons.IH [OF k this] show ?thesis .
  next
    case (Some e)
    with Cons.prems(2) 1 k show ?thesis by simp
  qed
qed

lemma lookup_system:
  assumes "systemPresent w" and "lookupServices config env (Services w) = Inr repo"
  shows "systemPresent (w\<lparr>Services := repo\<rparr>)"
  using assms lookupServices_system [OF assms(2)]
  by (simp add: systemPresent_def)

lemma discoveryRound_system:
  assumes "systemPresent w" and "discoveryRound config r w = Inr w'"
  shows "systemPresent w'"
proof -
  obtain env setupIDs healthIDs where r: "r = (env, setupIDs, healthIDs)"
    by (cases r)
  show ?thesis
  proof (cases "lookupServices config env (Services w)")
    case (Inl err)
    with assms r show ?thesis by (auto split: if_splits)
  next
    case (Inr repo)
    have 1: "systemPresent (w\<lparr>Services := repo\<rparr>)"
      using assms(1) Inr by (rule lookup_system)
    obtain w2 e2 where 2: "setupServices config env setupIDs (w\<lparr>Services := repo\<rparr>) = (w2, e2)"
      by (cases "setupServices config env setupIDs (w\<lparr>Services := repo\<rparr>)")
    have 3: "systemPresent w2"
      using 1 2 unfolding setupServices_def by (rule setupLoop_system)
    show ?thesis
    proof (cases e2)
      case None
      with assms(2) r Inr 2 have "w' = healthcheckServices (attemptConnect env) healthIDs w2"
        by simp
      with 3 show ?thesis by (simp add: healthcheckServices_system)
    next
      case (Some e)
      with assms(2) r Inr 2 have "w' = w2" by (auto split: if_splits)
      with 3 show ?thesis by simp
    qed
  qed
qed

lemma discoveryLoop_system:
  assumes "systemPresent w" and "discoveryLoop config rounds w = Inr w'"
  shows "systemPresent w'"
  using assms
proof (induction rounds arbitrary: w)
  case Nil
  then show ?case by simp
next
  case (Cons r rounds)
  from Cons.prems(2) obtain w1 where 1: "discoveryRound config r w = Inr w1"
    and 2: "discoveryLoop config rounds w1 = Inr w'"
    by (auto split: sum.splits)
  from discoveryRound_system [OF Cons.prems(1) 1] have "systemPresent w1" .
  from Cons.IH [OF this 2] show ?case .
qed

text \<open>
  C5. After the supervisor has started and made any number of rounds, the host
  pseudo-service is in place: its record is under \<open>system:0\<close> with failure counter 0,
  and the Health Loop has not probed it. Each step of a round keeps it in place: the
  discovery tick, the collector attachment, and the Health Loop tick, which leaves the
  record as it is. No method other than \<open>healthcheckServices\<close> calls
  \<open>removeService\<close>.
\<close>

theorem system_service_stays:
  "(startBackgroundDiscovery config rounds w = Inr w' \<and> ''system:0'' \<notin> set (probed w)
      \<longrightarrow> systemPresent w')
   \<and> (systemPresent w \<and> lookupServices config env (Services w) = Inr repo
      \<longrightarrow> systemPresent (w\<lparr>Services := repo\<rparr>))
   \<and> (systemPresent w \<and> setupServices config env ids w = (w', err) \<longrightarrow> systemPresent w')
   \<and> (systemPresent w \<longrightarrow>
        systemPresent (healthcheckServices ac ids w)
        \<and> Services (healthcheckServices ac ids w) ''system:0'' = Services w ''system:0'')"
proof (intro conjI impI)
  assume a: "startBackgroundDiscovery config rounds w = Inr w' \<and> ''system:0'' \<notin> set (probed w)"
  let ?w = "w\<lparr>Services := addService ''system:0'' systemService (Services w)\<rparr>"
  have "Services ?w ''system:0'' = Some (systemService\<lparr>Collector := None\<rparr>)"
    by (simp add: addService_def systemService_def)
  then have "systemPresent ?w"
    using a unfolding systemPresent_def by (intro conjI exI [of _ None]) simp_all
  moreover have "discoveryLoop config rounds ?w = Inr w'"
    using a by (simp add: startBackgroundDiscovery_def)
  ultimately show "systemPresent w'" by (rule discoveryLoop_system)
next
  assume "systemPresent w \<and> lookupServices config env (Services w) = Inr repo"
  then show "systemPresent (w\<lparr>Services := repo\<rparr>)"
    by (auto intro: lookup_system)
next
  assume "systemPresent w \<and> setupServices config env ids w = (w', err)"
  then show "systemPresent w'"
    unfolding setupServices_def by (auto intro: setupLoop_system)
next
  assume "systemPresent w"
  then show "systemPresent (healthcheckServices ac ids w)"
    by (rule healthcheckServices_system)
next
  assume a: "systemPresent w"
  have step: "\<And>v sid. systemPresent v \<Longrightarrow>
      Services (healthcheckService ac v sid) ''system:0'' = Services v ''system:0''"
  proof -
    fix v sid assume v: "systemPresent v"
    show "Services (healthcheckService ac v sid) ''system:0'' = Services v ''system:0''"
    proof (cases "sid = ''system:0''")
      case True
      from v obtain c where "Services v ''system:0'' = Some (systemService\<lparr>Collector := c\<rparr>)"
        by (auto simp add: systemPresent_def)
      then have "healthcheckService ac v ''system:0'' = v"
        using systemService_not_remote [of c]
        by (simp add: healthcheckService_def getService_def index_def remote_def)
      with True show ?thesis by simp
    next
      case False
      then show ?thesis by (intro healthcheckService_other) simp
    qed
  qed
  have "\<And>v. systemPresent v \<Longrightarrow>
      Services (healthcheckLoop ac ids v) ''system:0'' = Services v ''system:0''"
    by (induction ids) (simp_all add: step healthcheckService_system)
  with a show "Services (healthcheckServices ac ids w) ''system:0'' = Services w ''system:0''"
    by (simp add: healthcheckServices_def)
qed


lemma round42:
  "startBackgroundDiscovery config0
       [(env0, [''postgres:5432'', ''system:0''], [''postgres:5432'', ''system:0''])]
       \<lparr>Services = NewRepository, registered = {}, probed = []\<rparr>
     = Inr (world0\<lparr>probed := [''postgres:5432'']\<rparr>)"
proof -
  let ?r0 = "NewRepository(''system:0'' \<mapsto> systemService)"
  let ?r1 = "?r0(''postgres:5432'' \<mapsto> pg5432\<lparr>Collector := None\<rparr>)"
  have np: "NewProcess env0 42 = Inr proc42" and pids: "Pids env0 = Inr [42]"
    by (simp_all add: env0_def)
  have nm: "Name proc42 = Inr ''postgres''" and pp: "Ppid proc42 = 1"
    by (simp_all add: proc42_def)
  have l: "lookupServices config0 env0 ?r0 = Inr ?r1"
    by (simp add: lookupServices_def pids lookupProcess_def np nm pp discover42_up
        getService_def index_def NewRepository_def zeroService_def pg5432_def addService_def)
  have s: "setupServices config0 env0 [''postgres:5432'', ''system:0'']
        \<lparr>Services = ?r1, registered = {}, probed = []\<rparr>
      = (world0, None)"
    by (simp add: setupServices_def setupService_def attachCollector_def getService_def
        index_def addService_def env0_def pg5432_def systemService_def world0_def
        NewRepository_def ServiceTypeSystem_def ServiceTypePostgresql_def
        ServiceTypePgbouncer_def Let_def fun_upd_twist insert_commute)
  have h: "healthcheckServices (attemptConnect env0) [''postgres:5432'', ''system:0''] world0
      = world0\<lparr>probed := [''postgres:5432'']\<rparr>"
    by (simp add: ex_defs env0_def)
  show ?thesis
    by (simp add: startBackgroundDiscovery_def addService_def l s h)
qed

theorem system_service_stays_witness:
  "startBackgroundDiscovery config0
       [(env0, [''postgres:5432'', ''system:0''], [''postgres:5432'', ''system:0''])]
       \<lparr>Services = NewRepository, registered = {}, probed = []\<rparr>
     = Inr (world0\<lparr>probed := [''postgres:5432'']\<rparr>)
   \<and> systemPresent (world0\<lparr>probed := [''postgres:5432'']\<rparr>)
   \<and> systemPresent (healthcheckServices down [''postgres:5432'', ''system:0'']
        (world0\<lparr>probed := [''postgres:5432'']\<rparr>))"
proof -
  note t = system_service_stays [of config0
      "[(env0, [''postgres:5432'', ''system:0''], [''postgres:5432'', ''system:0''])]"
      "\<lparr>Services = NewRepository, registered = {}, probed = []\<rparr>"
      "world0\<lparr>probed := [''postgres:5432'']\<rparr>"]
  have 1: "systemPresent (world0\<lparr>probed := [''postgres:5432'']\<rparr>)"
    using t round42 by simp
  note u = system_service_stays [of config0 "[]" "world0\<lparr>probed := [''postgres:5432'']\<rparr>"
      "world0\<lparr>probed := [''postgres:5432'']\<rparr>" env0 NewRepository "[''postgres:5432'', ''system:0'']" None down]
  have 2: "systemPresent (healthcheckServices down [''postgres:5432'', ''system:0'']
        (world0\<lparr>probed := [''postgres:5432'']\<rparr>))"
    using u 1 by simp
  from round42 1 2 show ?thesis by simp
qed

section \<open>Validation of the configuration\<close>

text \<open>
  C9. A configuration with a push URL and no API key fails validation, and the program
  exits with code 1. With an empty push URL the API key plays no part: validation gives
  the same outcome whatever the key is, the key carried through unchanged.
\<close>

theorem api_key_required_with_push_url:
  "(SendMetricsURL c \<noteq> [] \<and> APIKey c = []
      \<longrightarrow> Validate lib c = Inl ErrAPIKey \<and> validateOrExit lib c = Inl 1)
   \<and> (SendMetricsURL c = []
      \<longrightarrow> Validate lib (c\<lparr>APIKey := k\<rparr>)
          = (case Validate lib c of Inl err \<Rightarrow> Inl err | Inr c' \<Rightarrow> Inr (c'\<lparr>APIKey := k\<rparr>)))"
proof -
  have 1: "SendMetricsURL c \<noteq> [] \<and> APIKey c = []
      \<longrightarrow> Validate lib c = Inl ErrAPIKey \<and> validateOrExit lib c = Inl 1"
    by (simp add: Validate_def validateOrExit_def Let_def)
  have 2: "SendMetricsURL c = []
      \<longrightarrow> Validate lib (c\<lparr>APIKey := k\<rparr>)
          = (case Validate lib c of Inl err \<Rightarrow> Inl err | Inr c' \<Rightarrow> Inr (c'\<lparr>APIKey := k\<rparr>))"
    by (simp add: Validate_def Let_def split: option.splits sum.splits)
  from 1 2 show ?thesis by (rule conjI)
qed

theorem api_key_required_with_push_url_witness:
  "Validate lib0 (appConfig0\<lparr>SendMetricsURL := ''https://push.example/metrics''\<rparr>) = Inl ErrAPIKey
   \<and> validateOrExit lib0 (appConfig0\<lparr>SendMetricsURL := ''https://push.example/metrics''\<rparr>) = Inl 1
   \<and> \<not> isl (Validate lib0 appConfig0)
   \<and> \<not> isl (Validate lib0 (appConfig0\<lparr>APIKey := ''secret''\<rparr>))"
proof -
  have ok: "\<not> isl (Validate lib0 appConfig0)"
    by (simp add: Validate_def lib0_def appConfig0_def Let_def)
  show ?thesis
    using api_key_required_with_push_url
        [of "appConfig0\<lparr>SendMetricsURL := ''https://push.example/metrics''\<rparr>" lib0 "[]"]
      api_key_required_with_push_url [of appConfig0 lib0 "''secret''"] ok
    by (auto simp add: appConfig0_def split: sum.splits)
qed

end
